(* ===== verification/Tee_Prelude.thy ===== *)
theory Tee_Prelude
  imports Main "HOL-Library.Word"
begin

text \<open>
  What every component of the development shares: the machine types, the outcome of a Rust
  function that may return an error or panic, the byte order of the integers that cross the
  wire, the few functions of the Rust standard library the sources call on strings
  (\<open>to_string\<close> of an integer, \<open>str::replace\<close>, \<open>String::from_utf8\<close>), and the collections of
  simplification rules the component theories extend.
\<close>

unbundle bit_operations_syntax

section \<open>Machine types\<close>

type_synonym byte = "8 word"
type_synonym bytes = "byte list"
type_synonym u8 = "8 word"
type_synonym u16 = "16 word"
type_synonym u32 = "32 word"
type_synonym u64 = "64 word"

text \<open>An Ethereum address is 20 bytes, kept as the 160-bit number they spell.\<close>

type_synonym address = "160 word"

named_theorems wire_simps \<open>rules that evaluate the framing of messages on a stream\<close>
named_theorems outcome_simps \<open>rules that push an outcome through the sequencing operators\<close>

section \<open>Outcomes\<close>

text \<open>
  A Rust function of type \<open>Result<T, E>\<close> ends in one of three ways: it returns \<open>Ok\<close>, it returns
  \<open>Err\<close>, or it panics (a failed \<open>unwrap\<close> or \<open>expect\<close>, an index out of range, an overflow check).
  The message of a panic is kept, since the callers that catch a panic print it.
\<close>

datatype ('e, 'a) outcome = Ok 'a | Err 'e | Panic string

text \<open>\<open>and_then m f\<close> is \<open>m?\<close> followed by the rest \<open>f\<close> of the function.\<close>

fun and_then :: "('e, 'a) outcome \<Rightarrow> ('a \<Rightarrow> ('e, 'b) outcome) \<Rightarrow> ('e, 'b) outcome" where
  "and_then (Ok a) f = f a"
| "and_then (Err e) f = Err e"
| "and_then (Panic s) f = Panic s"

text \<open>\<open>Result::map_err\<close>, \<open>Option::ok_or\<close> and \<open>Option::expect\<close>.\<close>

fun map_err :: "('e \<Rightarrow> 'f) \<Rightarrow> ('e, 'a) outcome \<Rightarrow> ('f, 'a) outcome" where
  "map_err g (Ok a) = Ok a"
| "map_err g (Err e) = Err (g e)"
| "map_err g (Panic s) = Panic s"

definition ok_or :: "'e \<Rightarrow> 'a option \<Rightarrow> ('e, 'a) outcome" where
  "ok_or e x = (case x of Some a \<Rightarrow> Ok a | None \<Rightarrow> Err e)"

definition expect :: "string \<Rightarrow> 'a option \<Rightarrow> ('e, 'a) outcome" where
  "expect s x = (case x of Some a \<Rightarrow> Ok a | None \<Rightarrow> Panic s)"

definition is_ok :: "('e, 'a) outcome \<Rightarrow> bool" where
  "is_ok m = (case m of Ok _ \<Rightarrow> True | Err _ \<Rightarrow> False | Panic _ \<Rightarrow> False)"

definition panics :: "('e, 'a) outcome \<Rightarrow> bool" where
  "panics m = (case m of Ok _ \<Rightarrow> False | Err _ \<Rightarrow> False | Panic _ \<Rightarrow> True)"

lemma is_ok_simps [simp, outcome_simps]:
  "is_ok (Ok a)" "\<not> is_ok (Err e)" "\<not> is_ok (Panic s)"
  by (simp_all add: is_ok_def)

lemma panics_simps [simp, outcome_simps]:
  "\<not> panics (Ok a)" "\<not> panics (Err e)" "panics (Panic s)"
  by (simp_all add: panics_def)

lemma ok_or_simps [simp, outcome_simps]: "ok_or e (Some a) = Ok a" "ok_or e None = Err e"
  by (simp_all add: ok_or_def)

lemma expect_simps [simp, outcome_simps]: "expect s (Some a) = Ok a" "expect s None = Panic s"
  by (simp_all add: expect_def)

lemma ok_or_eq_Ok [simp]: "ok_or e x = Ok a \<longleftrightarrow> x = Some a"
  by (cases x) simp_all

lemma expect_eq_Ok [simp]: "expect s x = Ok a \<longleftrightarrow> x = Some a"
  by (cases x) simp_all

lemma and_then_eq_Ok: "and_then m f = Ok b \<longleftrightarrow> (\<exists>a. m = Ok a \<and> f a = Ok b)"
  by (cases m) simp_all

lemma and_then_eq_Err: "and_then m f = Err e \<longleftrightarrow> m = Err e \<or> (\<exists>a. m = Ok a \<and> f a = Err e)"
  by (cases m) auto

lemma map_err_eq_Err: "map_err g m = Err e \<longleftrightarrow> (\<exists>d. m = Err d \<and> e = g d)"
  by (cases m) auto

lemma map_err_eq_Ok [simp]: "map_err g m = Ok a \<longleftrightarrow> m = Ok a"
  by (cases m) simp_all

lemma panics_map_err [simp]: "panics (map_err g m) \<longleftrightarrow> panics m"
  by (cases m) simp_all

lemma panics_ok_or [simp]: "\<not> panics (ok_or e x)"
  by (cases x) simp_all

lemma panics_and_then:
  "panics (and_then m f) \<longleftrightarrow> panics m \<or> (\<exists>a. m = Ok a \<and> panics (f a))"
  by (cases m) simp_all

text \<open>A result that is unwrapped with \<open>expect\<close>.\<close>

lemma unwrapped_Ok:
  "(case x of Inl e \<Rightarrow> Panic p | Inr b \<Rightarrow> Ok b) = Ok y \<longleftrightarrow> x = Inr y"
  by (cases x) auto

section \<open>Byte order\<close>

text \<open>\<open>u32::to_be_bytes\<close>, \<open>u32::from_be_bytes\<close> and \<open>u32::to_le_bytes\<close>.\<close>

definition to_be_bytes :: "u32 \<Rightarrow> bytes" where
  "to_be_bytes w = [ucast (drop_bit 24 w), ucast (drop_bit 16 w), ucast (drop_bit 8 w), ucast w]"

definition from_be_bytes :: "bytes \<Rightarrow> u32" where
  "from_be_bytes bs = fold (\<lambda>b acc. push_bit 8 acc OR ucast b) bs 0"

definition to_le_bytes :: "u32 \<Rightarrow> bytes" where
  "to_le_bytes w = rev (to_be_bytes w)"

lemma length_to_be_bytes [simp]: "length (to_be_bytes w) = 4"
  by (simp add: to_be_bytes_def)

lemma length_to_le_bytes [simp]: "length (to_le_bytes w) = 4"
  by (simp add: to_le_bytes_def)

lemma from_be_to_be_bytes [simp]: "from_be_bytes (to_be_bytes w) = w"
proof (rule bit_word_eqI)
  fix n
  assume n: "n < LENGTH(32)"
  note defs = to_be_bytes_def from_be_bytes_def bit_simps
  have "n < 8 \<or> (\<exists>k<8. n = 8 + k) \<or> (\<exists>k<8. n = 16 + k) \<or> (\<exists>k<8. n = 24 + k)"
    using n by (simp, presburger)
  then show "bit (from_be_bytes (to_be_bytes w)) n \<longleftrightarrow> bit w n"
    by (elim disjE exE conjE) (simp_all add: defs)
qed

lemma to_be_bytes_inject [simp]: "to_be_bytes v = to_be_bytes w \<longleftrightarrow> v = w"
  by (metis from_be_to_be_bytes)

lemma to_le_bytes_inject [simp]: "to_le_bytes v = to_le_bytes w \<longleftrightarrow> v = w"
  by (simp add: to_le_bytes_def)

lemma unat_of_nat_u32: "n < 2 ^ 32 \<Longrightarrow> unat (of_nat n :: u32) = n"
  by (simp add: unat_of_nat take_bit_nat_eq_self)

section \<open>Strings\<close>

text \<open>Decimal rendering of an unsigned integer, as \<open>to_string\<close> and \<open>format!("{}")\<close> print it.\<close>

fun show_nat :: "nat \<Rightarrow> string" where
  "show_nat n =
     (if n < 10 then [char_of (48 + n)] else show_nat (n div 10) @ [char_of (48 + n mod 10)])"

declare show_nat.simps [simp del]

text \<open>\<open>s.replace("0x", "")\<close>: every non-overlapping occurrence, from the left.\<close>

fun erase_0x :: "string \<Rightarrow> string" where
  "erase_0x (a # b # s) =
     (if a = CHR ''0'' \<and> b = CHR ''x'' then erase_0x s else a # erase_0x (b # s))"
| "erase_0x s = s"

lemma erase_0x_id: "CHR ''x'' \<notin> set s \<Longrightarrow> erase_0x s = s"
  by (induction s rule: erase_0x.induct) auto

lemma erase_0x_prefix [simp]: "erase_0x (CHR ''0'' # CHR ''x'' # s) = erase_0x s"
  by simp

text \<open>
  \<open>String::from_utf8\<close> accepts exactly the well-formed UTF-8 sequences: no overlong form, no
  surrogate, nothing above U+10FFFF. A model string is its list of UTF-8 bytes.
\<close>

definition between :: "nat \<Rightarrow> byte \<Rightarrow> nat \<Rightarrow> bool" where
  "between lo b hi \<longleftrightarrow> lo \<le> unat b \<and> unat b \<le> hi"

fun utf8_ok :: "bytes \<Rightarrow> bool" where
  "utf8_ok [] \<longleftrightarrow> True"
| "utf8_ok (a # s) \<longleftrightarrow>
     (if between 0 a 127 then utf8_ok s
      else (case s of
        [] \<Rightarrow> False
      | b # s' \<Rightarrow>
          if between 194 a 223 then between 128 b 191 \<and> utf8_ok s'
          else (case s' of
            [] \<Rightarrow> False
          | c # s'' \<Rightarrow>
              if a = 224 then between 160 b 191 \<and> between 128 c 191 \<and> utf8_ok s''
              else if a = 237 then between 128 b 159 \<and> between 128 c 191 \<and> utf8_ok s''
              else if between 225 a 239 then between 128 b 191 \<and> between 128 c 191 \<and> utf8_ok s''
              else (case s'' of
                [] \<Rightarrow> False
              | d # t \<Rightarrow>
                  (if a = 240 then between 144 b 191
                   else if a = 244 then between 128 b 143
                   else between 241 a 243 \<and> between 128 b 191)
                  \<and> between 128 c 191 \<and> between 128 d 191 \<and> utf8_ok t))))"

definition from_utf8 :: "bytes \<Rightarrow> string option" where
  "from_utf8 bs = (if utf8_ok bs then Some (map (\<lambda>b. char_of (unat b)) bs) else None)"

lemma utf8_ok_ascii: "\<forall>b \<in> set bs. unat b < 128 \<Longrightarrow> utf8_ok bs"
  by (induction bs) (auto simp: between_def)

text \<open>\<open>str::starts_with\<close>\<close>

definition starts_with :: "string \<Rightarrow> string \<Rightarrow> bool" where
  "starts_with s pre \<longleftrightarrow> take (length pre) s = pre"

text \<open>\<open>Address::to_vec\<close>: the 20 bytes of an address, the most significant first.\<close>

definition address_bytes :: "address \<Rightarrow> bytes" where
  "address_bytes a = map (\<lambda>i. ucast (drop_bit (8 * i) a)) (rev [0..<20])"

lemma length_address_bytes [simp]: "length (address_bytes a) = 20"
  by (simp add: address_bytes_def)

section \<open>Lists\<close>

lemma take_drop_append_exact [simp, wire_simps]:
  "length xs = n \<Longrightarrow> take n (xs @ ys) = xs" "length xs = n \<Longrightarrow> drop n (xs @ ys) = ys"
  by simp_all

end
