(* ===== verification/Messages.thy ===== *)
theory Messages
  imports Tee_Prelude
begin

text \<open>
  The messages of the host and the enclave: \<open>common/src/lib.rs\<close>. The payload types that belong to
  other crates stay abstract: \<open>'stdin\<close> is \<open>sp1_sdk::SP1Stdin\<close>, \<open>'pt\<close> is \<open>k256::EncodedPoint\<close>,
  \<open>'sig\<close> is \<open>k256::ecdsa::Signature\<close>.
\<close>

definition ENCLAVE_PORT :: u16 where
  "ENCLAVE_PORT = 5005"

definition ENCLAVE_CID :: u32 where
  "ENCLAVE_CID = 10"

datatype 'stdin enclave_request =
    Print string
  | GetPublicKey
  | GetEncryptedSigningKey
  | AttestSigningKey
  | Execute (req_stdin: 'stdin) (req_program: bytes) (req_cycle_limit: u64)
  | SetSigningKey bytes
  | CloseSession

datatype ('pt, 'sig) enclave_response =
    PublicKey 'pt
  | EncryptedSigningKey bytes
  | SigningKeyAttestation bytes
  | SignedPublicValues (rsp_vkey: bytes) (rsp_public_values: bytes) (rsp_signature: 'sig)
      (rsp_recovery_id: u8)
  | Error string
  | Ack

text \<open>\<open>EnclaveRequest::type_of\<close> and \<open>EnclaveResponse::type_of\<close>.\<close>

fun request_type_of :: "'stdin enclave_request \<Rightarrow> string" where
  "request_type_of CloseSession = ''CloseSession''"
| "request_type_of GetPublicKey = ''GetPublicKey''"
| "request_type_of (Print _) = ''Print''"
| "request_type_of GetEncryptedSigningKey = ''GetEncryptedSigningKey''"
| "request_type_of (Execute _ _ _) = ''Execute''"
| "request_type_of (SetSigningKey _) = ''SetSigningKey''"
| "request_type_of AttestSigningKey = ''AttestSigningKey''"

fun response_type_of :: "('pt, 'sig) enclave_response \<Rightarrow> string" where
  "response_type_of (PublicKey _) = ''PublicKey''"
| "response_type_of (EncryptedSigningKey _) = ''EncryptedSigningKey''"
| "response_type_of (SigningKeyAttestation _) = ''SigningKeyAttestation''"
| "response_type_of (SignedPublicValues _ _ _ _) = ''SignedPublicValues''"
| "response_type_of (Error _) = ''Error''"
| "response_type_of Ack = ''Ack''"

text \<open>The name of a response determines its variant: the errors that carry only the name lose
  nothing but the payload.\<close>

lemma response_type_of_inject:
  "response_type_of r = response_type_of r' \<longleftrightarrow>
   (is_PublicKey r = is_PublicKey r' \<and> is_EncryptedSigningKey r = is_EncryptedSigningKey r' \<and>
    is_SigningKeyAttestation r = is_SigningKeyAttestation r' \<and>
    is_SignedPublicValues r = is_SignedPublicValues r' \<and> is_Error r = is_Error r' \<and>
    (r = Ack) = (r' = Ack))"
  by (cases r; cases r') simp_all

end
