(* ===== verification/Interfaces.thy ===== *)
theory Interfaces
  imports Tee_Prelude
begin

text \<open>
  The interfaces between the components, as locales: what a component promises to the ones that
  use it, and what follows from the promise alone. Each locale is interpreted on the model's own
  definitions in the theory of the component that keeps the promise.
\<close>

section \<open>Transition systems and their invariants\<close>

text \<open>
  Every concurrent part (the enclave's connections, the host's requests) and the contract's
  storage is a transition system with an invariant that holds at the start and that every step
  keeps. What is reachable satisfies it.
\<close>

locale transition_system =
  fixes init :: "'s \<Rightarrow> bool"
    and step :: "'s \<Rightarrow> 's \<Rightarrow> bool"
    and inv :: "'s \<Rightarrow> bool"
  assumes init_inv: "init s \<Longrightarrow> inv s"
    and step_inv: "inv s \<Longrightarrow> step s t \<Longrightarrow> inv t"
begin

lemma steps_inv: "rtranclp step s t \<Longrightarrow> inv s \<Longrightarrow> inv t"
  by (induction rule: rtranclp_induct) (blast intro: step_inv)+

lemma reach_inv: "init s \<Longrightarrow> rtranclp step s t \<Longrightarrow> inv t"
  by (blast intro: init_inv steps_inv)

end

text \<open>
  A system whose invariant ties a mutex to a critical section: the holder is exactly the one
  inside. Both mutexes of the program (\<open>execution_guard\<close> in the enclave, \<open>execution_mutex\<close> on the
  host) are used this way.
\<close>

locale guarded_system = transition_system init step inv
  for init :: "'s \<Rightarrow> bool" and step :: "'s \<Rightarrow> 's \<Rightarrow> bool" and inv :: "'s \<Rightarrow> bool" +
  fixes holder :: "'s \<Rightarrow> 'i option"
    and inside :: "'s \<Rightarrow> 'i \<Rightarrow> bool"
  assumes inside_iff_holder: "inv s \<Longrightarrow> inside s i \<longleftrightarrow> holder s = Some i"
begin

lemma mutual_exclusion:
  "init s \<Longrightarrow> rtranclp step s t \<Longrightarrow> inside t i \<Longrightarrow> inside t j \<Longrightarrow> i = j"
  by (auto dest: reach_inv simp: inside_iff_holder)

lemma not_leaked:
  "init s \<Longrightarrow> rtranclp step s t \<Longrightarrow> \<forall>i. \<not> inside t i \<Longrightarrow> holder t = None"
  by (metis inside_iff_holder not_None_eq reach_inv)

end

section \<open>Self-delimiting encodings of byte strings\<close>

text \<open>
  A framing puts payloads one after the other on a byte stream so that the reader can tell them
  apart. \<open>fits\<close> says which payloads it can carry. The vsock stream prefixes four length bytes,
  the proof bytes of the verifier contract prefix the version string with one.
\<close>

text \<open>Reading \<open>n\<close> payloads off the front of a byte string.\<close>

fun unframe_n :: "(bytes \<Rightarrow> (bytes \<times> bytes) option) \<Rightarrow> nat \<Rightarrow> bytes \<Rightarrow> (bytes list \<times> bytes) option" where
  "unframe_n u 0 bs = Some ([], bs)"
| "unframe_n u (Suc n) bs =
     (case u bs of
        None \<Rightarrow> None
      | Some (p, rest) \<Rightarrow>
          (case unframe_n u n rest of None \<Rightarrow> None | Some (ps, rest') \<Rightarrow> Some (p # ps, rest')))"

locale framing =
  fixes frame :: "bytes \<Rightarrow> bytes"
    and unframe :: "bytes \<Rightarrow> (bytes \<times> bytes) option"
    and fits :: "bytes \<Rightarrow> bool"
  assumes unframe_frame: "fits p \<Longrightarrow> unframe (frame p @ rest) = Some (p, rest)"
    and unframe_truncated: "fits p \<Longrightarrow> n < length (frame p) \<Longrightarrow> unframe (take n (frame p)) = None"
    and unframe_progress: "unframe bs = Some (p, rest) \<Longrightarrow> length rest < length bs"
begin

lemma frame_inject:
  assumes "fits p" and "fits q" and "frame p @ r = frame q @ s"
  shows "p = q \<and> r = s"
proof -
  have "Some (p, r) = Some (q, s)"
    by (metis unframe_frame assms)
  then show ?thesis by simp
qed

lemma unframe_concat:
  "\<forall>p \<in> set ps. fits p \<Longrightarrow>
   unframe_n unframe (length ps) (concat (map frame ps) @ rest) = Some (ps, rest)"
  by (induction ps) (simp_all add: unframe_frame)

lemma frame_nonempty: "fits p \<Longrightarrow> frame p \<noteq> []"
  using unframe_progress [OF unframe_frame, of p "[]"] by auto

end

section \<open>Sets of members kept in storage\<close>

text \<open>
  The interface of a set that can also be listed: what a lookup returns after an insertion and a
  removal, which operations are refused, and the invariant every operation keeps. The verifier
  contract uses its signers map only through it.
\<close>

locale member_set =
  fixes empty :: "'s"
    and add :: "'s \<Rightarrow> 'a \<Rightarrow> ('e, 's) outcome"
    and remove :: "'s \<Rightarrow> 'a \<Rightarrow> ('e, 's) outcome"
    and member :: "'s \<Rightarrow> 'a \<Rightarrow> bool"
    and elems :: "'s \<Rightarrow> 'a list"
    and invar :: "'s \<Rightarrow> bool"
  assumes invar_empty: "invar empty"
    and member_empty: "\<not> member empty a"
    and add_new: "invar s \<Longrightarrow> \<not> member s a \<Longrightarrow> \<exists>t. add s a = Ok t"
    and add_Ok: "invar s \<Longrightarrow> add s a = Ok t \<Longrightarrow>
      invar t \<and> \<not> member s a \<and> (\<forall>b. member t b \<longleftrightarrow> b = a \<or> member s b)"
    and remove_old: "invar s \<Longrightarrow> member s a \<Longrightarrow> \<exists>t. remove s a = Ok t"
    and remove_Ok: "invar s \<Longrightarrow> remove s a = Ok t \<Longrightarrow>
      invar t \<and> member s a \<and> (\<forall>b. member t b \<longleftrightarrow> b \<noteq> a \<and> member s b)"
    and set_elems: "invar s \<Longrightarrow> set (elems s) = Collect (member s)"
    and distinct_elems: "invar s \<Longrightarrow> distinct (elems s)"
begin

lemma add_iff: "invar s \<Longrightarrow> is_ok (add s a) \<longleftrightarrow> \<not> member s a"
  by (metis add_new add_Ok is_ok_def outcome.exhaust outcome.simps(10-12))

lemma remove_iff: "invar s \<Longrightarrow> is_ok (remove s a) \<longleftrightarrow> member s a"
  by (metis remove_old remove_Ok is_ok_def outcome.exhaust outcome.simps(10-12))

lemma set_elems_add: "invar s \<Longrightarrow> add s a = Ok t \<Longrightarrow> set (elems t) = insert a (set (elems s))"
  using add_Ok [of s a t] by (auto simp: set_elems)

lemma set_elems_remove: "invar s \<Longrightarrow> remove s a = Ok t \<Longrightarrow> set (elems t) = set (elems s) - {a}"
  using remove_Ok [of s a t] by (auto simp: set_elems)

lemma add_remove: 
  assumes "invar s" and "add s a = Ok t" and "remove t a = Ok u"
  shows "set (elems u) = set (elems s)"
proof -
  have "invar t" and "\<not> member s a" using add_Ok assms by blast+
  then show ?thesis
    using assms set_elems by (auto simp: set_elems_add set_elems_remove)
qed

end

end
