(* ===== verification/Communication.thy ===== *)
theory Communication
  imports Interfaces "HOL-Library.Sublist"
begin

text \<open>
  The framed message stream: \<open>common/src/communication.rs\<close>. A message crosses the vsock connection
  as four big-endian length bytes followed by its bincode encoding.

  The raw socket belongs to \<open>tokio_vsock\<close>; what the code uses of it is the byte-stream contract of
  \<open>AsyncReadExt::read_exact\<close> and \<open>AsyncWriteExt::write_all\<close>. The state of a socket is what was
  written to it, how much was read from it, the peer (what it will have made available to read by
  the time it stops or closes, as a function of everything written to it so far) and, where the
  link breaks, the number of bytes it still accepts before that. bincode is a parameter: a pair of
  functions whose only law is that a serialised message deserialises to itself.
\<close>

section \<open>The raw socket\<close>

datatype io_error = UnexpectedEof | BrokenPipe | ConnectionRefused

record raw_stream =
  written :: bytes
  consumed :: nat
  peer :: "bytes \<Rightarrow> bytes"
  room :: "nat option"

text \<open>
  Streams are ordered by what happened to them: a later stream has written and read at least as much,
  talks to the same peer and has no more room. That this is an order of the library's class gives the
  operations below their transitivity reasoning.
\<close>

definition room_le :: "nat option \<Rightarrow> nat option \<Rightarrow> bool" where
  "room_le m n \<longleftrightarrow> (case n of None \<Rightarrow> m = None | Some k \<Rightarrow> (case m of None \<Rightarrow> False | Some j \<Rightarrow> j \<le> k))"

instantiation raw_stream_ext :: (order) order
begin

definition less_eq_raw_stream_ext :: "'a raw_stream_ext \<Rightarrow> 'a raw_stream_ext \<Rightarrow> bool" where
  "less_eq_raw_stream_ext s t \<longleftrightarrow>
     prefix (written s) (written t) \<and> consumed s \<le> consumed t \<and> peer s = peer t \<and>
     room_le (room t) (room s) \<and> raw_stream.more s \<le> raw_stream.more t"

definition less_raw_stream_ext :: "'a raw_stream_ext \<Rightarrow> 'a raw_stream_ext \<Rightarrow> bool" where
  "less_raw_stream_ext s t \<longleftrightarrow> s \<le> t \<and> \<not> t \<le> s"

instance
proof
  fix s t u :: "'a raw_stream_ext"
  show "s < t \<longleftrightarrow> s \<le> t \<and> \<not> t \<le> s" by (simp add: less_raw_stream_ext_def)
  show "s \<le> s" by (simp add: less_eq_raw_stream_ext_def room_le_def split: option.split)
  show "s \<le> t \<Longrightarrow> t \<le> u \<Longrightarrow> s \<le> u"
    by (auto simp: less_eq_raw_stream_ext_def room_le_def split: option.splits)
  show "s \<le> t \<Longrightarrow> t \<le> s \<Longrightarrow> s = t"
    by (auto simp: less_eq_raw_stream_ext_def room_le_def split: option.splits intro: raw_stream.equality)
qed

end

lemmas stream_le_def = less_eq_raw_stream_ext_def room_le_def

definition incoming :: "raw_stream \<Rightarrow> bytes" where
  "incoming s = drop (consumed s) (peer s (written s))"

definition fresh :: "(bytes \<Rightarrow> bytes) \<Rightarrow> raw_stream" where
  "fresh p = \<lparr>written = [], consumed = 0, peer = p, room = None\<rparr>"

definition write_all :: "raw_stream \<Rightarrow> bytes \<Rightarrow> (io_error, unit) outcome \<times> raw_stream" where
  "write_all s bs =
     (case room s of
        None \<Rightarrow> (Ok (), s\<lparr>written := written s @ bs\<rparr>)
      | Some n \<Rightarrow>
          if length bs \<le> n
          then (Ok (), s\<lparr>written := written s @ bs, room := Some (n - length bs)\<rparr>)
          else (Err BrokenPipe, s\<lparr>written := written s @ take n bs, room := Some 0\<rparr>))"

definition read_exact :: "raw_stream \<Rightarrow> nat \<Rightarrow> (io_error, bytes) outcome \<times> raw_stream" where
  "read_exact s n =
     (if n \<le> length (incoming s)
      then (Ok (take n (incoming s)), s\<lparr>consumed := consumed s + n\<rparr>)
      else (Err UnexpectedEof, s\<lparr>consumed := consumed s + length (incoming s)\<rparr>))"

section \<open>Messages on the socket\<close>

record 'm bincode =
  serialize :: "'m \<Rightarrow> string + bytes"
  deserialize :: "bytes \<Rightarrow> string + 'm"

definition bincode_ok :: "'m bincode \<Rightarrow> bool" where
  "bincode_ok cd \<longleftrightarrow> (\<forall>m bs. serialize cd m = Inr bs \<longrightarrow> deserialize cd bs = Inr m)"

datatype comm_error = Io io_error | Bincode string | MessageTooLarge

definition u32_max :: nat where
  "u32_max = 2 ^ 32 - 1"

text \<open>\<open>VsockStream::connect\<close>: the network is what the address leads to.\<close>

definition vsock_connect ::
  "(u32 \<Rightarrow> u32 \<Rightarrow> (io_error, raw_stream) outcome) \<Rightarrow> u32 \<Rightarrow> u32 \<Rightarrow> (comm_error, raw_stream) outcome" where
  "vsock_connect net cid port = map_err Io (net cid port)"

text \<open>\<open>VsockStream::send\<close>\<close>

definition send ::
  "'m bincode \<Rightarrow> raw_stream \<Rightarrow> 'm \<Rightarrow> (comm_error, unit) outcome \<times> raw_stream" where
  "send cd s message =
     (case serialize cd message of
        Inl e \<Rightarrow> (Err (Bincode e), s)
      | Inr message_bytes \<Rightarrow>
          if length message_bytes > u32_max then (Err MessageTooLarge, s)
          else
            let message_len = to_be_bytes (of_nat (length message_bytes)) in
            (case write_all s message_len of
               (Ok _, s1) \<Rightarrow>
                 (case write_all s1 message_bytes of
                    (Ok _, s2) \<Rightarrow> (Ok (), s2)
                  | (Err e, s2) \<Rightarrow> (Err (Io e), s2)
                  | (Panic p, s2) \<Rightarrow> (Panic p, s2))
             | (Err e, s1) \<Rightarrow> (Err (Io e), s1)
             | (Panic p, s1) \<Rightarrow> (Panic p, s1)))"

text \<open>\<open>VsockStream::recv\<close>\<close>

definition recv :: "'m bincode \<Rightarrow> raw_stream \<Rightarrow> (comm_error, 'm) outcome \<times> raw_stream" where
  "recv cd s =
     (case read_exact s 4 of
        (Ok message_len_buf, s1) \<Rightarrow>
          let message_len = from_be_bytes message_len_buf in
          (case read_exact s1 (unat message_len) of
             (Ok message_buf, s2) \<Rightarrow>
               (case deserialize cd message_buf of
                  Inl e \<Rightarrow> (Err (Bincode e), s2)
                | Inr m \<Rightarrow> (Ok m, s2))
           | (Err e, s2) \<Rightarrow> (Err (Io e), s2)
           | (Panic p, s2) \<Rightarrow> (Panic p, s2))
      | (Err e, s1) \<Rightarrow> (Err (Io e), s1)
      | (Panic p, s1) \<Rightarrow> (Panic p, s1))"

text \<open>Several messages in order, as the callers do with one call each; the first error stops.\<close>

fun send_list ::
  "'m bincode \<Rightarrow> raw_stream \<Rightarrow> 'm list \<Rightarrow> (comm_error, unit) outcome \<times> raw_stream" where
  "send_list cd s [] = (Ok (), s)"
| "send_list cd s (m # ms) =
     (case send cd s m of
        (Ok _, s1) \<Rightarrow> send_list cd s1 ms
      | (Err e, s1) \<Rightarrow> (Err e, s1)
      | (Panic p, s1) \<Rightarrow> (Panic p, s1))"

fun recv_list ::
  "'m bincode \<Rightarrow> raw_stream \<Rightarrow> nat \<Rightarrow> (comm_error, 'm list) outcome \<times> raw_stream" where
  "recv_list cd s 0 = (Ok [], s)"
| "recv_list cd s (Suc n) =
     (case recv cd s of
        (Ok m, s1) \<Rightarrow>
          (case recv_list cd s1 n of
             (Ok ms, s2) \<Rightarrow> (Ok (m # ms), s2)
           | (Err e, s2) \<Rightarrow> (Err e, s2)
           | (Panic p, s2) \<Rightarrow> (Panic p, s2))
      | (Err e, s1) \<Rightarrow> (Err e, s1)
      | (Panic p, s1) \<Rightarrow> (Panic p, s1))"

section \<open>The wire format and its framing law\<close>

text \<open>What \<open>send\<close> puts on the wire and what \<open>recv\<close> takes off it, as functions on byte strings.\<close>

definition frame :: "bytes \<Rightarrow> bytes" where
  "frame p = to_be_bytes (of_nat (length p)) @ p"

definition fits :: "bytes \<Rightarrow> bool" where
  "fits p \<longleftrightarrow> length p \<le> u32_max"

definition unframe :: "bytes \<Rightarrow> (bytes \<times> bytes) option" where
  "unframe bs =
     (if length bs < 4 then None
      else let n = unat (from_be_bytes (take 4 bs)); r = drop 4 bs in
           if length r < n then None else Some (take n r, drop n r))"

lemma unat_frame_length: "fits p \<Longrightarrow> unat (of_nat (length p) :: u32) = length p"
  by (rule unat_of_nat_u32) (simp add: fits_def u32_max_def)

lemma length_frame [simp]: "length (frame p) = 4 + length p"
  by (simp add: frame_def)

lemma take_less_append: "n < length xs \<Longrightarrow> take n (xs @ ys) = take n xs"
  by simp

interpretation vsock: framing frame unframe fits
proof
  fix p rest
  assume "fits p"
  then show "unframe (frame p @ rest) = Some (p, rest)"
    by (simp add: unframe_def frame_def unat_frame_length)
next
  fix p n
  assume p: "fits p" and n: "n < length (frame p)"
  show "unframe (take n (frame p)) = None"
  proof (cases "n < 4")
    case True
    then show ?thesis by (simp add: unframe_def)
  next
    case False
    with n show ?thesis
      by (simp add: unframe_def frame_def unat_frame_length [OF p] Let_def)
  qed
next
  fix bs p rest
  assume "unframe bs = Some (p, rest)"
  then show "length rest < length bs"
    by (auto simp: unframe_def Let_def split: if_splits)
qed

section \<open>The stream operations in terms of the wire format\<close>

definition encodable :: "'m bincode \<Rightarrow> 'm \<Rightarrow> bool" where
  "encodable cd m \<longleftrightarrow> (case serialize cd m of Inl _ \<Rightarrow> False | Inr bs \<Rightarrow> fits bs)"

definition payload :: "'m bincode \<Rightarrow> 'm \<Rightarrow> bytes" where
  "payload cd m = (case serialize cd m of Inl _ \<Rightarrow> [] | Inr bs \<Rightarrow> bs)"

definition wire :: "'m bincode \<Rightarrow> 'm \<Rightarrow> bytes" where
  "wire cd m = frame (payload cd m)"

definition wires :: "'m bincode \<Rightarrow> 'm list \<Rightarrow> bytes" where
  "wires cd ms = concat (map (wire cd) ms)"

lemma wires_simps [simp, wire_simps]:
  "wires cd [] = []" "wires cd (m # ms) = wire cd m @ wires cd ms"
  by (simp_all add: wires_def)

lemma wires_append [simp]: "wires cd (ms @ ns) = wires cd ms @ wires cd ns"
  by (simp add: wires_def)

lemma encodable_fits: "encodable cd m \<Longrightarrow> fits (payload cd m)"
  by (auto simp: encodable_def payload_def split: sum.splits)

lemma encodable_decodes:
  "bincode_ok cd \<Longrightarrow> encodable cd m \<Longrightarrow> deserialize cd (payload cd m) = Inr m"
  by (auto simp: encodable_def payload_def bincode_ok_def split: sum.splits)

lemma incoming_fresh [simp]: "incoming (fresh p) = p []"
  by (simp add: incoming_def fresh_def)

lemma incoming_consume [simp]:
  "incoming (s\<lparr>consumed := consumed s + k\<rparr>) = drop k (incoming s)"
  by (simp add: incoming_def add.commute)

lemma consumed_consume [simp]:
  "s\<lparr>consumed := a, consumed := b\<rparr> = s\<lparr>consumed := b\<rparr>"
  by simp

lemma recv_unframe:
  "recv cd s =
     (case unframe (incoming s) of
        None \<Rightarrow> (Err (Io UnexpectedEof), s\<lparr>consumed := consumed s + length (incoming s)\<rparr>)
      | Some (p, rest) \<Rightarrow>
          (case deserialize cd p of Inl e \<Rightarrow> Err (Bincode e) | Inr m \<Rightarrow> Ok m,
           s\<lparr>consumed := consumed s + (4 + length p)\<rparr>))"
proof (cases "length (incoming s) < 4")
  case True
  then show ?thesis by (simp add: recv_def read_exact_def unframe_def)
next
  case False
  define s1 where "s1 = s\<lparr>consumed := consumed s + 4\<rparr>"
  define n where "n = unat (from_be_bytes (take 4 (incoming s)))"
  have hdr: "read_exact s 4 = (Ok (take 4 (incoming s)), s1)"
    using False by (simp add: read_exact_def s1_def)
  have body: "read_exact s1 n =
      (if n \<le> length (drop 4 (incoming s))
       then (Ok (take n (drop 4 (incoming s))), s\<lparr>consumed := consumed s + (4 + n)\<rparr>)
       else (Err UnexpectedEof, s\<lparr>consumed := consumed s + length (incoming s)\<rparr>))"
    using False by (simp add: s1_def read_exact_def add.assoc)
  have "recv cd s =
      (case read_exact s1 n of
         (Ok buf, s2) \<Rightarrow>
           (case deserialize cd buf of Inl e \<Rightarrow> (Err (Bincode e), s2) | Inr m \<Rightarrow> (Ok m, s2))
       | (Err e, s2) \<Rightarrow> (Err (Io e), s2) | (Panic p, s2) \<Rightarrow> (Panic p, s2))"
    by (simp add: recv_def hdr n_def)
  then show ?thesis
    using False
    by (cases "n \<le> length (drop 4 (incoming s))")
      (simp_all add: body unframe_def Let_def flip: n_def split: sum.split)
qed

lemma recv_wire:
  assumes "bincode_ok cd" and "encodable cd m" and "incoming s = wire cd m @ rest"
  shows "recv cd s = (Ok m, s\<lparr>consumed := consumed s + length (wire cd m)\<rparr>)"
  using assms
  by (simp add: recv_unframe wire_def vsock.unframe_frame encodable_fits encodable_decodes)

lemma recv_list_wires:
  assumes "bincode_ok cd" and "\<forall>m \<in> set ms. encodable cd m" and "incoming s = wires cd ms @ rest"
  shows "recv_list cd s (length ms) = (Ok ms, s\<lparr>consumed := consumed s + length (wires cd ms)\<rparr>)"
  using assms(2,3)
proof (induction ms arbitrary: s)
  case Nil
  then show ?case by simp
next
  case (Cons m ms)
  define s1 where "s1 = s\<lparr>consumed := consumed s + length (wire cd m)\<rparr>"
  have "recv cd s = (Ok m, s1)"
    unfolding s1_def using Cons.prems by (intro recv_wire [OF assms(1)]) auto
  moreover have "recv_list cd s1 (length ms) =
      (Ok ms, s1\<lparr>consumed := consumed s1 + length (wires cd ms)\<rparr>)"
    using Cons.prems by (intro Cons.IH) (auto simp: s1_def)
  ultimately show ?case by (simp add: s1_def add.assoc)
qed

lemma send_cases:
  obtains
    (Sent) r where "encodable cd m"
      "send cd s m = (Ok (), s\<lparr>written := written s @ wire cd m, room := r\<rparr>)"
  | (Cut) n e where "encodable cd m" "n < length (wire cd m)" "send cd s m =
      (Err e, s\<lparr>written := written s @ take n (wire cd m), room := Some 0\<rparr>)"
  | (Refused) e where "\<not> encodable cd m" "send cd s m = (Err e, s)"
proof (cases "serialize cd m")
  case (Inl e)
  then show ?thesis by (intro Refused [of "Bincode e"]) (simp_all add: encodable_def send_def)
next
  case (Inr bs)
  show ?thesis
  proof (cases "fits bs")
    case False
    with Inr show ?thesis
      by (intro Refused [of MessageTooLarge]) (simp_all add: encodable_def send_def fits_def)
  next
    case True
    then have enc: "encodable cd m" and len: "\<not> u32_max < length bs"
      using Inr by (simp_all add: encodable_def fits_def)
    have w: "wire cd m = to_be_bytes (of_nat (length bs)) @ bs"
      by (simp add: wire_def payload_def frame_def Inr)
    show ?thesis
    proof (cases "room s")
      case None
      with Inr len w show ?thesis by (intro Sent [OF enc, of None]) (simp add: send_def write_all_def)
    next
      case (Some n)
      show ?thesis
      proof (cases "length (wire cd m) \<le> n")
        case True
        with Some Inr len w show ?thesis
          by (intro Sent [OF enc, of "Some (n - length (wire cd m))"])
            (auto simp: send_def write_all_def Let_def)
      next
        case False
        with Some Inr len w show ?thesis
          by (intro Cut [OF enc, of n "Io BrokenPipe"]) (auto simp: send_def write_all_def Let_def)
      qed
    qed
  qed
qed

lemma send_ok_written:
  "send cd s m = (Ok u, s') \<Longrightarrow> encodable cd m \<and> written s' = written s @ wire cd m"
  by (rule send_cases [of cd m s]) auto

lemma send_list_ok_written:
  "send_list cd s ms = (Ok u, s') \<Longrightarrow>
   (\<forall>m \<in> set ms. encodable cd m) \<and> written s' = written s @ wires cd ms"
proof (induction ms arbitrary: s)
  case Nil
  then show ?case by simp
next
  case (Cons m ms)
  then obtain v s1 where "send cd s m = (Ok v, s1)" and "send_list cd s1 ms = (Ok u, s')"
    by (auto split: prod.splits outcome.splits)
  then show ?case using Cons.IH [of s1] send_ok_written [of cd s m v s1] by simp
qed

lemma send_sound:
  assumes "room s = None" and "encodable cd m"
  shows "send cd s m = (Ok (), s\<lparr>written := written s @ wire cd m\<rparr>)"
  using assms
  by (auto simp: send_def write_all_def encodable_def wire_def payload_def frame_def fits_def
      split: sum.splits)

lemma send_no_panic: "\<not> panics (fst (send cd s m))"
  by (rule send_cases [of cd m s]) auto

lemma recv_no_panic: "\<not> panics (fst (recv cd s))"
  by (auto simp: recv_unframe split: option.splits sum.splits)

section \<open>Progress of a stream\<close>

text \<open>
  The operations only move a stream forward. Under a peer that never takes back what it has sent
  (\<open>causal\<close>), what can be read now can be read at every later moment from the same place.
\<close>

definition causal :: "(bytes \<Rightarrow> bytes) \<Rightarrow> bool" where
  "causal p \<longleftrightarrow> (\<forall>w d. prefix (p w) (p (w @ d)))"

lemma send_progress: "s \<le> snd (send cd s m)"
  by (simp add: send_def write_all_def stream_le_def Let_def split: sum.split option.split)

lemma recv_progress: "s \<le> snd (recv cd s)"
  by (simp add: recv_unframe stream_le_def split: option.split)

lemma consume_progress: "s \<le> (s :: raw_stream)\<lparr>consumed := consumed s + n\<rparr>"
  by (simp add: stream_le_def split: option.split)

lemma progress_peer: "(s :: raw_stream) \<le> t \<Longrightarrow> peer t = peer s"
  by (simp add: less_eq_raw_stream_ext_def)

lemma progress_incoming:
  assumes "causal (peer s)" and "s \<le> t"
  shows "prefix (incoming s) (drop (consumed s) (peer t (written t)))"
proof -
  obtain d where d: "written t = written s @ d" and "peer t = peer s"
    using assms(2) by (auto simp: less_eq_raw_stream_ext_def prefix_def)
  moreover have "prefix (peer s (written s)) (peer s (written s @ d))"
    using assms(1) by (simp add: causal_def)
  ultimately show ?thesis by (auto simp: incoming_def prefix_def)
qed

lemma unframe_append: "unframe bs = Some (p, rest) \<Longrightarrow> unframe (bs @ d) = Some (p, rest @ d)"
  by (auto simp: unframe_def Let_def split: if_splits)

lemma unframe_rest: "unframe bs = Some (p, rest) \<Longrightarrow> rest = drop (4 + length p) bs"
  by (auto simp: unframe_def Let_def add.commute split: if_splits)

text \<open>A frame that is cut off in its payload takes the bytes that follow it for the missing ones.\<close>

lemma unframe_cut:
  assumes "fits p" and "4 \<le> n" and "n \<le> length (frame p)"
  shows "unframe (take n (frame p) @ bs) =
    (if n + length bs < length (frame p) then None
     else Some (take (length p) (drop 4 (take n (frame p) @ bs)), drop (length (frame p) - n) bs))"
proof -
  have cut: "take n (frame p) = to_be_bytes (of_nat (length p)) @ take (n - 4) p"
    using assms(2) by (simp add: frame_def)
  have "drop (length p) (take (n - 4) p @ bs) = drop (length (frame p) - n) bs"
    using assms(2,3) by (simp add: min_def add.commute)
  then show ?thesis
    unfolding cut unframe_def using assms by (auto simp: unat_frame_length Let_def min_def add.commute)
qed

section \<open>Properties\<close>

text \<open>The codec of byte strings that sends them as they are, for concrete runs.\<close>

definition id_bincode :: "bytes bincode" where
  "id_bincode = \<lparr>serialize = Inr, deserialize = Inr\<rparr>"

lemma id_bincode_ok [simp]: "bincode_ok id_bincode"
  by (simp add: bincode_ok_def id_bincode_def)

lemmas stream_eval = send_def recv_def write_all_def read_exact_def fresh_def incoming_def
  id_bincode_def to_be_bytes_def from_be_bytes_def u32_max_def Let_def

text \<open>
  C10. Whatever list of messages a sender manages to send, the receiver at the other end of the
  byte stream receives exactly that list, in that order, and what follows on the stream is left
  untouched. (The sender's stream may hold earlier output, and the receiver's any later input.)
\<close>

theorem send_recv_in_order:
  assumes "bincode_ok cd" and "send_list cd a ms = (Ok (), a')"
    and "incoming b = drop (length (written a)) (written a') @ rest"
  shows "\<exists>b'. recv_list cd b (length ms) = (Ok ms, b') \<and> incoming b' = rest"
proof -
  have enc: "\<forall>m \<in> set ms. encodable cd m" and "written a' = written a @ wires cd ms"
    using send_list_ok_written [OF assms(2)] by auto
  then have inc: "incoming b = wires cd ms @ rest" using assms(3) by simp
  show ?thesis using recv_list_wires [OF assms(1) enc inc] inc by simp
qed

theorem send_recv_in_order_witness:
  "\<exists>b'. recv_list id_bincode (fresh (\<lambda>_. [0,0,0,2,7,8, 0,0,0,1,9, 5,5])) 2 = (Ok [[7, 8], [9]], b')
      \<and> incoming b' = [5, 5]"
proof -
  have "send_list id_bincode (fresh (\<lambda>_. [])) [[7, 8], [9]] =
      (Ok (), (fresh (\<lambda>_. []))\<lparr>written := [0,0,0,2,7,8, 0,0,0,1,9]\<rparr>)"
    by (simp add: stream_eval)
  from send_recv_in_order [OF id_bincode_ok this,
      of "fresh (\<lambda>_. [0,0,0,2,7,8, 0,0,0,1,9, 5,5])" "[5, 5]"]
  show ?thesis by (simp add: fresh_def incoming_def numeral_2_eq_2)
qed

text \<open>
  C29. A send that fails, whatever the reason (the message does not serialise, it is too long, the
  link breaks after any number of its bytes), never makes the receiver accept a message: it sees
  the end of the stream.
\<close>

theorem failed_send_delivers_nothing:
  assumes "send cd a m = (Err e, a')"
    and "incoming b = drop (length (written a)) (written a')"
  shows "fst (recv cd b) = Err (Io UnexpectedEof)"
proof (rule send_cases [of cd m a])
  fix n e'
  assume enc: "encodable cd m" and n: "n < length (wire cd m)"
    and "send cd a m = (Err e', a\<lparr>written := written a @ take n (wire cd m), room := Some 0\<rparr>)"
  then have "incoming b = take n (wire cd m)" using assms by auto
  then show ?thesis
    using vsock.unframe_truncated [OF encodable_fits [OF enc]] n
    by (simp add: recv_unframe wire_def del: length_frame)
next
  fix e'
  assume "\<not> encodable cd m" and "send cd a m = (Err e', a)"
  then have "incoming b = []" using assms by simp
  then show ?thesis by (simp add: recv_unframe unframe_def)
qed (use assms in auto)

theorem failed_send_delivers_nothing_witness:
  "fst (recv id_bincode (fresh (\<lambda>_. [0,0,0,3,1]))) = Err (Io UnexpectedEof)"
proof -
  have "send id_bincode ((fresh (\<lambda>_. []))\<lparr>room := Some 5\<rparr>) [1, 2, 3] =
      (Err (Io BrokenPipe), (fresh (\<lambda>_. []))\<lparr>room := Some 0, written := [0,0,0,3,1]\<rparr>)"
    by (simp add: stream_eval)
  from failed_send_delivers_nothing [OF this, of "fresh (\<lambda>_. [0,0,0,3,1])"]
  show ?thesis by (simp add: fresh_def incoming_def)
qed

text \<open>
  On a link that does not break, \<open>send\<close> writes the length of the encoding in four big-endian
  bytes and then the encoding, for every length up to \<open>u32::MAX\<close>; a longer message is refused with
  \<open>MessageTooLarge\<close> and a serialisation error is passed on, both with nothing written. The length
  on the wire is the true length: it never wraps.
\<close>

lemma send_functional:
  assumes "room s = None"
  shows "send cd s m =
      (case serialize cd m of
         Inl e \<Rightarrow> (Err (Bincode e), s)
       | Inr bs \<Rightarrow>
           if length bs < 2 ^ 32
           then (Ok (), s\<lparr>written := written s @ to_be_bytes (of_nat (length bs)) @ bs\<rparr>)
           else (Err MessageTooLarge, s)) \<and>
    (\<forall>bs :: bytes. length bs < 2 ^ 32 \<longrightarrow>
      unat (from_be_bytes (to_be_bytes (of_nat (length bs)))) = length bs)"
  using assms
  by (auto simp: send_def write_all_def u32_max_def unat_of_nat_u32 split: sum.splits)

lemma send_functional_witness:
  "send id_bincode (fresh (\<lambda>_. [])) [1, 2] =
     (Ok (), (fresh (\<lambda>_. []))\<lparr>written := [0, 0, 0, 2, 1, 2]\<rparr>)"
proof -
  have "room (fresh (\<lambda>_. [])) = None" by (simp add: fresh_def)
  from send_functional [OF this, of id_bincode "[1, 2]"]
  show ?thesis by (simp add: id_bincode_def fresh_def to_be_bytes_def)
qed

end
