(* ===== verification/Enclave_Server.thy ===== *)
theory Enclave_Server
  imports Messages Communication
begin

text \<open>
  The enclave's server: \<open>enclave/src/server.rs\<close> and \<open>enclave/src/main.rs\<close>. It holds the signing key,
  answers the requests of a connection one by one, attests to its public key through the Nitro
  security module and signs the outputs of the programs it executes.

  What belongs to other crates is a parameter, collected in the record \<open>enclave_ext\<close>: the SP1
  prover's \<open>setup\<close> and \<open>execute(..).run()\<close>, Keccak-256, recoverable ECDSA signing, the encoding of
  the verifying key, the security module and the rendering of a \<open>JoinError\<close>. This theory is about
  one connection; \<open>Enclave_Concurrency\<close> interleaves them.
\<close>

section \<open>What the server calls\<close>

datatype nsm_request =
  NsmAttestation (nsm_user_data: "bytes option") (nsm_nonce: "bytes option")
    (nsm_public_key: "bytes option")

datatype nsm_response = NsmDocument bytes | NsmOther

datatype nsm_call = NsmInit | NsmProcess int nsm_request | NsmExit int

record ('key, 'stdin, 'vk, 'pt, 'sig) enclave_ext =
  prover_setup :: "bytes \<Rightarrow> string + 'vk"
  run_program :: "bytes \<Rightarrow> 'stdin \<Rightarrow> u64 \<Rightarrow> (string, bytes) outcome"
  bytes32_raw :: "'vk \<Rightarrow> bytes"
  keccak256 :: "bytes \<Rightarrow> bytes"
  sign_digest_recoverable :: "'key \<Rightarrow> bytes \<Rightarrow> ('sig \<times> u8) option"
  encoded_point :: "'key \<Rightarrow> 'pt"
  point_bytes :: "'pt \<Rightarrow> bytes"
  nsm_init :: int
  nsm_process_request :: "int \<Rightarrow> nsm_request \<Rightarrow> string + nsm_response"
  join_error_display :: "string \<Rightarrow> string"
  join_error_debug :: "string \<Rightarrow> string"
  sp1_tee_version :: u32

section \<open>The server\<close>

definition MAX_ALLOWED_CYCLES :: u64 where
  "MAX_ALLOWED_CYCLES = 4294967295"

datatype connection_state = Continue | Close

record enclave_args =
  enc_key_arn :: string
  args_cid :: "u32 option"

text \<open>
  The two mutexes protect the key and nothing: a connection by itself sees only the key, since it
  releases whatever it locks before it answers.
\<close>

record 'key enclave_server =
  srv_args :: enclave_args
  signing_key :: 'key

text \<open>\<open>Server::new\<close>: the key comes from the operating system's generator.\<close>

definition server_new :: "enclave_args \<Rightarrow> 'key \<Rightarrow> 'key enclave_server" where
  "server_new a rand = \<lparr>srv_args = a, signing_key = rand\<rparr>"

text \<open>\<open>set_signing_key\<close> and \<open>get_signing_key\<close> are \<open>todo!()\<close>; \<open>handle_message\<close> does not call them.\<close>

definition set_signing_key :: "'key enclave_server \<Rightarrow> bytes \<Rightarrow> ('e, 'key enclave_server) outcome" where
  "set_signing_key srv ciphertext = Panic ''not yet implemented''"

definition get_signing_key :: "'key enclave_server \<Rightarrow> ('e, bytes) outcome" where
  "get_signing_key srv = Panic ''not yet implemented''"

definition get_public_key ::
  "('key, 'stdin, 'vk, 'pt, 'sig) enclave_ext \<Rightarrow> 'key enclave_server \<Rightarrow> 'pt" where
  "get_public_key ext srv = encoded_point ext (signing_key srv)"

text \<open>
  \<open>attest_signing_key\<close>, with the calls it makes to the security module in order. It too runs on a
  blocking thread: \<open>Inl\<close> is a panic of the driver.
\<close>

definition attest_signing_key ::
  "('key, 'stdin, 'vk, 'pt, 'sig) enclave_ext \<Rightarrow> 'key enclave_server \<Rightarrow>
   (string + ('pt, 'sig) enclave_response) \<times> nsm_call list" where
  "attest_signing_key ext srv =
     (let fd = nsm_init ext in
      if fd < 0 then (Inr (Error ''Failed to initialize NSM''), [NsmInit])
      else
        let public_key_bytes = point_bytes ext (get_public_key ext srv);
            request = NsmAttestation (Some (to_le_bytes (sp1_tee_version ext))) None
              (Some public_key_bytes)
        in
        (case nsm_process_request ext fd request of
           Inl p \<Rightarrow> (Inl p, [NsmInit, NsmProcess fd request])
         | Inr response \<Rightarrow>
             (Inr (case response of
                NsmDocument document \<Rightarrow> SigningKeyAttestation document
              | NsmOther \<Rightarrow> Error ''Unexpected response type from NSM, this is a bug.''),
              [NsmInit, NsmProcess fd request, NsmExit fd])))"

definition join_attestation ::
  "('key, 'stdin, 'vk, 'pt, 'sig) enclave_ext \<Rightarrow> string + ('pt, 'sig) enclave_response \<Rightarrow>
   ('pt, 'sig) enclave_response" where
  "join_attestation ext task =
     (case task of
        Inr response \<Rightarrow> response
      | Inl e \<Rightarrow> Error (''Join error when attesting signing key: '' @ join_error_debug ext e))"

text \<open>The bytes that are hashed and signed for an execution.\<close>

definition to_sign ::
  "('key, 'stdin, 'vk, 'pt, 'sig) enclave_ext \<Rightarrow> bytes \<Rightarrow> bytes \<Rightarrow> bytes" where
  "to_sign ext vkey_raw public_values =
     (let public_values_hash = keccak256 ext public_values;
          version_bytes_hash = keccak256 ext (to_le_bytes (sp1_tee_version ext))
      in concat [version_bytes_hash, vkey_raw, public_values_hash])"

text \<open>
  The part of \<open>execute\<close> that runs while the execution guard is held. It runs on a blocking thread,
  so a panic (in the prover's \<open>setup\<close>, say) does not end the server: \<open>Inl\<close> carries it to the join.
\<close>

definition execute_guarded ::
  "('key, 'stdin, 'vk, 'pt, 'sig) enclave_ext \<Rightarrow> 'key enclave_server \<Rightarrow> 'stdin \<Rightarrow> bytes \<Rightarrow> u64 \<Rightarrow>
   string + ('pt, 'sig) enclave_response" where
  "execute_guarded ext srv stdin program cycle_limit =
     (case prover_setup ext program of
        Inl p \<Rightarrow> Inl p
      | Inr vk \<Rightarrow>
          (case run_program ext program stdin cycle_limit of
             Ok public_values \<Rightarrow>
               let vkey_raw = bytes32_raw ext vk in
               (case sign_digest_recoverable ext (signing_key srv)
                       (keccak256 ext (to_sign ext vkey_raw public_values)) of
                  None \<Rightarrow> Inr (Error ''Failed to sign public values, this is a bug.'')
                | Some (signature, recovery_id) \<Rightarrow>
                    Inr (SignedPublicValues vkey_raw public_values signature recovery_id))
           | Err e \<Rightarrow> Inr (Error (''Failed to execute program: '' @ e))
           | Panic p \<Rightarrow> Inl p))"

definition cycle_limit_error :: "u64 \<Rightarrow> ('pt, 'sig) enclave_response" where
  "cycle_limit_error cycle_limit =
     Error (''Cycle limit is too high: '' @ show_nat (unat cycle_limit) @ '', max: '' @
       show_nat (unat MAX_ALLOWED_CYCLES))"

definition execute ::
  "('key, 'stdin, 'vk, 'pt, 'sig) enclave_ext \<Rightarrow> 'key enclave_server \<Rightarrow> 'stdin \<Rightarrow> bytes \<Rightarrow> u64 \<Rightarrow>
   string + ('pt, 'sig) enclave_response" where
  "execute ext srv stdin program cycle_limit =
     (if cycle_limit > MAX_ALLOWED_CYCLES then Inr (cycle_limit_error cycle_limit)
      else execute_guarded ext srv stdin program cycle_limit)"

text \<open>What \<open>handle_message\<close> sends when it has joined the blocking task of an execution.\<close>

definition join_execution ::
  "('key, 'stdin, 'vk, 'pt, 'sig) enclave_ext \<Rightarrow> string + ('pt, 'sig) enclave_response \<Rightarrow>
   ('pt, 'sig) enclave_response" where
  "join_execution ext task =
     (case task of
        Inr response \<Rightarrow> response
      | Inl e \<Rightarrow> Error (''Join error when executing program: '' @ join_error_display ext e))"

section \<open>Handling a message and a connection\<close>

text \<open>\<open>stream.send(..).await.unwrap()\<close>, then on to the next message.\<close>

definition reply ::
  "('pt, 'sig) enclave_response bincode \<Rightarrow> raw_stream \<Rightarrow> ('pt, 'sig) enclave_response \<Rightarrow>
   (string, connection_state) outcome \<times> raw_stream" where
  "reply rcd stream response =
     (case send rcd stream response of
        (Ok _, stream') \<Rightarrow> (Ok Continue, stream')
      | (Err _, stream') \<Rightarrow> (Panic ''called Result::unwrap() on an Err value (send)'', stream')
      | (Panic p, stream') \<Rightarrow> (Panic p, stream'))"

text \<open>
  \<open>handle_message\<close>; \<open>debug\<close> is the \<open>debug-mode\<close> feature. With it, the answer to \<open>Print\<close> is a future
  that is dropped without being awaited, so nothing is sent.
\<close>

fun handle_message ::
  "('key, 'stdin, 'vk, 'pt, 'sig) enclave_ext \<Rightarrow> bool \<Rightarrow> ('pt, 'sig) enclave_response bincode \<Rightarrow>
   'key enclave_server \<Rightarrow> 'stdin enclave_request \<Rightarrow> raw_stream \<Rightarrow>
   (string, connection_state) outcome \<times> raw_stream" where
  "handle_message ext debug rcd srv (Print message) stream =
     (if debug then (Ok Continue, stream) else reply rcd stream Ack)"
| "handle_message ext debug rcd srv GetPublicKey stream =
     reply rcd stream (PublicKey (get_public_key ext srv))"
| "handle_message ext debug rcd srv AttestSigningKey stream =
     reply rcd stream (join_attestation ext (fst (attest_signing_key ext srv)))"
| "handle_message ext debug rcd srv (Execute stdin program cycle_limit) stream =
     reply rcd stream (join_execution ext (execute ext srv stdin program cycle_limit))"
| "handle_message ext debug rcd srv GetEncryptedSigningKey stream =
     reply rcd stream (Error ''Not implemented'')"
| "handle_message ext debug rcd srv (SetSigningKey ciphertext) stream =
     reply rcd stream (Error ''Not implemented'')"
| "handle_message ext debug rcd srv CloseSession stream = (Ok Close, stream)"

text \<open>
  \<open>handle_connection\<close>: \<open>None\<close> is a connection that is served forever, which needs a host that never
  stops sending. A panic ends the task of this connection only.
\<close>

partial_function (option) handle_connection ::
  "('key, 'stdin, 'vk, 'pt, 'sig) enclave_ext \<Rightarrow> bool \<Rightarrow> 'stdin enclave_request bincode \<Rightarrow>
   ('pt, 'sig) enclave_response bincode \<Rightarrow> 'key enclave_server \<Rightarrow> raw_stream \<Rightarrow>
   ((string, unit) outcome \<times> raw_stream) option" where
  "handle_connection ext debug qcd rcd srv stream =
     (case recv qcd stream of
        (Ok message, stream1) \<Rightarrow>
          (case handle_message ext debug rcd srv message stream1 of
             (Ok Continue, stream2) \<Rightarrow> handle_connection ext debug qcd rcd srv stream2
           | (Ok Close, stream2) \<Rightarrow> Some (Ok (), stream2)
           | (Err e, stream2) \<Rightarrow> Some (Err e, stream2)
           | (Panic p, stream2) \<Rightarrow> Some (Panic p, stream2))
      | (Err _, stream1) \<Rightarrow>
          Some (Panic ''called Result::unwrap() on an Err value (recv)'', stream1)
      | (Panic p, stream1) \<Rightarrow> Some (Panic p, stream1))"

section \<open>The sequential specification: what each request is answered with\<close>

text \<open>
  The answers to a request, independent of any stream. \<open>handle_message\<close> refines it (it sends exactly
  these answers), and so does the interleaving of all connections in \<open>Enclave_Concurrency\<close>.
\<close>

fun replies_of ::
  "('key, 'stdin, 'vk, 'pt, 'sig) enclave_ext \<Rightarrow> bool \<Rightarrow> 'key enclave_server \<Rightarrow>
   'stdin enclave_request \<Rightarrow> ('pt, 'sig) enclave_response list" where
  "replies_of ext debug srv (Print _) = (if debug then [] else [Ack])"
| "replies_of ext debug srv GetPublicKey = [PublicKey (get_public_key ext srv)]"
| "replies_of ext debug srv AttestSigningKey =
     [join_attestation ext (fst (attest_signing_key ext srv))]"
| "replies_of ext debug srv (Execute stdin program cycle_limit) =
     [join_execution ext (execute ext srv stdin program cycle_limit)]"
| "replies_of ext debug srv GetEncryptedSigningKey = [Error ''Not implemented'']"
| "replies_of ext debug srv (SetSigningKey _) = [Error ''Not implemented'']"
| "replies_of ext debug srv CloseSession = []"

definition answers ::
  "('key, 'stdin, 'vk, 'pt, 'sig) enclave_ext \<Rightarrow> bool \<Rightarrow> 'key enclave_server \<Rightarrow>
   'stdin enclave_request list \<Rightarrow> ('pt, 'sig) enclave_response list" where
  "answers ext debug srv ms = concat (map (replies_of ext debug srv) ms)"

lemma answers_simps [simp]:
  "answers ext debug srv [] = []"
  "answers ext debug srv (m # ms) = replies_of ext debug srv m @ answers ext debug srv ms"
  "answers ext debug srv (ms @ ns) = answers ext debug srv ms @ answers ext debug srv ns"
  by (simp_all add: answers_def)

text \<open>A cycle limit above 2^32 - 1 is refused before the prover or the key is used; 2^32 - 1 is not.\<close>

lemma show_max_cycles: "show_nat (unat MAX_ALLOWED_CYCLES) = ''4294967295''"
proof -
  have "show_nat 4294967295 = ''4294967295''" by (simp add: show_nat.simps char_of_def bit_0)
  then show ?thesis by (simp add: MAX_ALLOWED_CYCLES_def)
qed

lemma execute_over_limit:
  "cycle_limit > 4294967295 \<Longrightarrow>
   execute ext srv stdin program cycle_limit =
     Inr (Error (''Cycle limit is too high: '' @ show_nat (unat cycle_limit) @ '', max: 4294967295''))"
  by (simp add: execute_def cycle_limit_error_def show_max_cycles) (simp add: MAX_ALLOWED_CYCLES_def)

lemma execute_within_limit:
  "cycle_limit \<le> 4294967295 \<Longrightarrow>
   execute ext srv stdin program cycle_limit = execute_guarded ext srv stdin program cycle_limit"
  by (auto simp: execute_def MAX_ALLOWED_CYCLES_def)

text \<open>An execution is answered with signed values or with an error.\<close>

lemma execute_response:
  "execute ext srv stdin program cycle_limit = Inr r \<Longrightarrow>
   (\<exists>vkey pv sig rid. r = SignedPublicValues vkey pv sig rid) \<or> (\<exists>e. r = Error e)"
  by (auto simp: execute_def execute_guarded_def cycle_limit_error_def Let_def
      split: if_splits sum.splits outcome.splits option.splits)

lemma reply_sound:
  "room s = None \<Longrightarrow> encodable rcd r \<Longrightarrow>
   reply rcd s r = (Ok Continue, s\<lparr>written := written s @ wire rcd r\<rparr>)"
  by (simp add: reply_def send_sound)

lemma send_frame: "consumed (snd (send cd s m)) = consumed s \<and> peer (snd (send cd s m)) = peer s"
  by (rule send_cases [of cd m s]) simp_all

lemma reply_frame:
  "reply rcd s r = (x, s') \<Longrightarrow> consumed s' = consumed s \<and> peer s' = peer s"
  using send_frame [of rcd s r] by (auto simp: reply_def split: prod.splits outcome.splits)

lemma handle_message_frame:
  "handle_message ext debug rcd srv m s = (x, s') \<Longrightarrow> consumed s' = consumed s \<and> peer s' = peer s"
  by (cases m) (auto dest: reply_frame split: if_splits)

lemma handle_message_run:
  "room s = None \<Longrightarrow> \<forall>r \<in> set (replies_of ext debug srv m). encodable rcd r \<Longrightarrow>
   handle_message ext debug rcd srv m s =
     (Ok (if m = CloseSession then Close else Continue),
      s\<lparr>written := written s @ wires rcd (replies_of ext debug srv m)\<rparr>)"
  by (cases m) (simp_all add: reply_sound)

text \<open>
  A connection on a scripted input: the host has sent (or will send) exactly \<open>input\<close>, whatever it is
  answered.
\<close>

definition scripted :: "raw_stream \<Rightarrow> bytes \<Rightarrow> bool" where
  "scripted s input \<longleftrightarrow> peer s = (\<lambda>_. input)"

lemma scripted_incoming: "scripted s input \<Longrightarrow> incoming s = drop (consumed s) input"
  by (simp add: scripted_def incoming_def)

lemma scripted_fresh [simp]: "scripted (fresh (\<lambda>_. input)) input"
  by (simp add: scripted_def fresh_def)

lemma scripted_update [simp]:
  "scripted (s\<lparr>consumed := c\<rparr>) input = scripted s input"
  "scripted (s\<lparr>written := w\<rparr>) input = scripted s input"
  by (simp_all add: scripted_def)

text \<open>The requests of a script are taken one by one; each step writes its answers.\<close>

lemma handle_connection_step:
  assumes "bincode_ok qcd" and "encodable qcd m" and "m \<noteq> CloseSession"
    and "room s = None" and "incoming s = wire qcd m @ rest"
    and "\<forall>r \<in> set (replies_of ext debug srv m). encodable rcd r"
  shows "handle_connection ext debug qcd rcd srv s =
     handle_connection ext debug qcd rcd srv
       (s\<lparr>consumed := consumed s + length (wire qcd m),
          written := written s @ wires rcd (replies_of ext debug srv m)\<rparr>)"
  using assms
  by (subst handle_connection.simps)
    (simp add: recv_wire [OF assms(1,2,5)] handle_message_run)

lemma handle_connection_run:
  assumes "bincode_ok qcd" and "\<forall>m \<in> set ms. encodable qcd m" and "CloseSession \<notin> set ms"
    and "room s = None" and "scripted s input" and "incoming s = wires qcd ms @ rest"
    and "\<forall>r \<in> set (answers ext debug srv ms). encodable rcd r"
  shows "handle_connection ext debug qcd rcd srv s =
     handle_connection ext debug qcd rcd srv
       (s\<lparr>consumed := consumed s + length (wires qcd ms),
          written := written s @ wires rcd (answers ext debug srv ms)\<rparr>)"
  using assms(2-)
proof (induction ms arbitrary: s)
  case Nil
  then show ?case by simp
next
  case (Cons m ms)
  define s1 where "s1 = s\<lparr>consumed := consumed s + length (wire qcd m),
    written := written s @ wires rcd (replies_of ext debug srv m)\<rparr>"
  have inc: "incoming s1 = wires qcd ms @ rest"
  proof -
    have "incoming s1 = drop (length (wire qcd m)) (incoming s)"
      using Cons.prems(4) by (simp add: incoming_def scripted_def s1_def add.commute)
    then show ?thesis using Cons.prems(5) by simp
  qed
  have "handle_connection ext debug qcd rcd srv s = handle_connection ext debug qcd rcd srv s1"
    unfolding s1_def using Cons.prems by (intro handle_connection_step assms(1)) auto
  also have "\<dots> = handle_connection ext debug qcd rcd srv
      (s1\<lparr>consumed := consumed s1 + length (wires qcd ms),
          written := written s1 @ wires rcd (answers ext debug srv ms)\<rparr>)"
    using Cons.prems inc by (intro Cons.IH) (auto simp: s1_def)
  finally show ?case by (simp add: s1_def add.assoc)
qed

text \<open>A session that is closed.\<close>

lemma handle_connection_closed:
  assumes "bincode_ok qcd" and "\<forall>m \<in> set (ms @ [CloseSession]). encodable qcd m"
    and "CloseSession \<notin> set ms"
    and "\<forall>r \<in> set (answers ext debug srv ms). encodable rcd r"
    and "input = wires qcd (ms @ [CloseSession]) @ rest"
  shows "\<exists>s. handle_connection ext debug qcd rcd srv (fresh (\<lambda>_. input)) = Some (Ok (), s) \<and>
     written s = wires rcd (answers ext debug srv ms) \<and> incoming s = rest"
proof -
  let ?s0 = "fresh (\<lambda>_. input)"
  define s1 where "s1 = ?s0\<lparr>consumed := consumed ?s0 + length (wires qcd ms),
    written := written ?s0 @ wires rcd (answers ext debug srv ms)\<rparr>"
  have run: "handle_connection ext debug qcd rcd srv ?s0 = handle_connection ext debug qcd rcd srv s1"
    unfolding s1_def using assms
    by (intro handle_connection_run [where rest = "wire qcd CloseSession @ rest"])
      (auto simp: fresh_def scripted_def incoming_def)
  have inc: "incoming s1 = wire qcd CloseSession @ rest"
    using assms(5) by (simp add: s1_def incoming_def fresh_def)
  have close: "recv qcd s1 =
      (Ok CloseSession, s1\<lparr>consumed := consumed s1 + length (wire qcd CloseSession)\<rparr>)"
    using assms(2) by (intro recv_wire [OF assms(1) _ inc]) simp
  have "handle_connection ext debug qcd rcd srv s1 =
      Some (Ok (), s1\<lparr>consumed := consumed s1 + length (wire qcd CloseSession)\<rparr>)"
    by (subst handle_connection.simps) (simp add: close)
  then show ?thesis using run assms(5) by (simp add: s1_def fresh_def incoming_def)
qed

section \<open>Any host\<close>

text \<open>A message is answered in full, or the link breaks in the middle of its answers.\<close>

lemma reply_cases:
  assumes "reply rcd s r = (x, t)"
  shows "s \<le> t \<and> prefix (written t) (written s @ wire rcd r) \<and> x \<noteq> Ok Close \<and> (\<forall>e. x \<noteq> Err e) \<and>
    (x = Ok Continue \<longrightarrow> written t = written s @ wire rcd r)"
proof (rule send_cases [of rcd r s])
  fix n e
  assume "n < length (wire rcd r)"
    and "send rcd s r = (Err e, s\<lparr>written := written s @ take n (wire rcd r), room := Some 0\<rparr>)"
  then show ?thesis
    using assms send_progress [of s rcd r] by (auto simp: reply_def take_is_prefix)
qed (use assms send_progress [of s rcd r] in \<open>auto simp: reply_def\<close>)

lemma handle_message_cases:
  assumes "handle_message ext debug rcd srv m s = (x, t)"
  shows "s \<le> t \<and> prefix (written t) (written s @ wires rcd (replies_of ext debug srv m)) \<and>
    (\<forall>e. x \<noteq> Err e) \<and> (x = Ok Close \<longleftrightarrow> m = CloseSession) \<and>
    (x = Ok Continue \<or> x = Ok Close \<longrightarrow>
       written t = written s @ wires rcd (replies_of ext debug srv m))"
  using assms by (cases m) (auto dest!: reply_cases split: if_splits)

text \<open>The requests that can be read off a byte string, in order, one frame each.\<close>

definition reads ::
  "'stdin enclave_request bincode \<Rightarrow> bytes \<Rightarrow> 'stdin enclave_request list \<Rightarrow> bool" where
  "reads qcd bs ms \<longleftrightarrow>
     (\<exists>ps rest. unframe_n unframe (length ms) bs = Some (ps, rest) \<and> map (deserialize qcd) ps = map Inr ms)"

lemma reads_Nil [simp]: "reads qcd bs []"
  by (simp add: reads_def)

lemma reads_Cons:
  "unframe bs = Some (p, rest) \<Longrightarrow> deserialize qcd p = Inr m \<Longrightarrow> reads qcd rest ms \<Longrightarrow> reads qcd bs (m # ms)"
  by (auto simp: reads_def intro: exI [of _ "p # ps" for ps])

text \<open>
  What a connection that was left has done: it read requests, answered them in order as specified,
  stopping anywhere in the last answers, and was left in order exactly by a \<open>CloseSession\<close>.
\<close>

definition only_answered ::
  "('key, 'stdin, 'vk, 'pt, 'sig) enclave_ext \<Rightarrow> bool \<Rightarrow> 'stdin enclave_request bincode \<Rightarrow>
   ('pt, 'sig) enclave_response bincode \<Rightarrow> 'key enclave_server \<Rightarrow> raw_stream \<Rightarrow>
   (string, unit) outcome \<Rightarrow> raw_stream \<Rightarrow> bool" where
  "only_answered ext debug qcd rcd srv s r t \<longleftrightarrow>
     s \<le> t \<and>
     (\<exists>ms. reads qcd (drop (consumed s) (peer t (written t))) ms \<and>
        prefix (written t) (written s @ wires rcd (answers ext debug srv ms)) \<and>
        (is_ok r \<longleftrightarrow> written t = written s @ wires rcd (answers ext debug srv ms) \<and>
           (\<exists>ns. ms = ns @ [CloseSession] \<and> CloseSession \<notin> set ns)))"

lemma only_answered_Cons:
  assumes "causal (peer s)" and "unframe (incoming s) = Some (p, rest)" and "deserialize qcd p = Inr m"
    and "m \<noteq> CloseSession" and "s1 = s\<lparr>consumed := consumed s + (4 + length p)\<rparr>"
    and "handle_message ext debug rcd srv m s1 = (Ok Continue, s2)"
    and "only_answered ext debug qcd rcd srv s2 r t"
  shows "only_answered ext debug qcd rcd srv s r t"
proof -
  have w2: "written s2 = written s @ wires rcd (replies_of ext debug srv m)" and "s1 \<le> s2"
    using handle_message_cases [OF assms(6)] assms(5) by simp_all
  have c2: "consumed s2 = consumed s + (4 + length p)"
    using handle_message_frame [OF assms(6)] assms(5) by simp
  have "s \<le> s1" unfolding assms(5) by (rule consume_progress)
  then have "s \<le> s2" using \<open>s1 \<le> s2\<close> by (rule order.trans)
  moreover have "s2 \<le> t" using assms(7) by (simp add: only_answered_def)
  ultimately have le: "s \<le> t" by (rule order.trans)
  obtain ms where ms: "reads qcd (drop (consumed s2) (peer t (written t))) ms"
      "prefix (written t) (written s2 @ wires rcd (answers ext debug srv ms))"
      "is_ok r \<longleftrightarrow> written t = written s2 @ wires rcd (answers ext debug srv ms) \<and>
         (\<exists>ns. ms = ns @ [CloseSession] \<and> CloseSession \<notin> set ns)"
    using assms(7) unfolding only_answered_def by blast
  let ?in = "drop (consumed s) (peer t (written t))"
  obtain d where "?in = incoming s @ d"
    using progress_incoming [OF assms(1) le] by (auto simp: prefix_def)
  then obtain rest' where u: "unframe ?in = Some (p, rest')"
    using unframe_append [OF assms(2), of d] by auto
  then have "rest' = drop (consumed s2) (peer t (written t))"
    using unframe_rest [OF u] by (simp add: c2 add.commute)
  then have "reads qcd ?in (m # ms)" using reads_Cons [OF u assms(3)] ms(1) by simp
  moreover have "(\<exists>ns. m # ms = ns @ [CloseSession] \<and> CloseSession \<notin> set ns) \<longleftrightarrow>
      (\<exists>ns. ms = ns @ [CloseSession] \<and> CloseSession \<notin> set ns)"
    using assms(4) by (auto simp: Cons_eq_append_conv)
  ultimately show ?thesis
    using le ms(2,3) w2 unfolding only_answered_def by (intro conjI exI [of _ "m # ms"]) auto
qed

lemma only_answered_last:
  assumes "causal (peer s)" and "unframe (incoming s) = Some (p, rest)" and "deserialize qcd p = Inr m"
    and "s1 = s\<lparr>consumed := consumed s + (4 + length p)\<rparr>"
    and "handle_message ext debug rcd srv m s1 = (x, t)" and "is_ok r \<longleftrightarrow> x = Ok Close"
  shows "only_answered ext debug qcd rcd srv s r t"
proof -
  note out = handle_message_cases [OF assms(5)]
  have "s \<le> s1" unfolding assms(4) by (rule consume_progress)
  then have le: "s \<le> t" using out by (meson order.trans)
  let ?in = "drop (consumed s) (peer t (written t))"
  obtain d where "?in = incoming s @ d"
    using progress_incoming [OF assms(1) le] by (auto simp: prefix_def)
  then have "reads qcd ?in [m]"
    using unframe_append [OF assms(2), of d] assms(3) by (auto intro: reads_Cons)
  moreover have "(\<exists>ns. [m] = ns @ [CloseSession] \<and> CloseSession \<notin> set ns) \<longleftrightarrow> m = CloseSession"
    by auto
  moreover have "written s1 = written s" using assms(4) by simp
  ultimately show ?thesis
    using le out assms(6) unfolding only_answered_def by (intro conjI exI [of _ "[m]"]) auto
qed

lemma only_answered_unread:
  assumes "recv qcd s = (y, t)" and "\<not> is_ok y" and "\<not> is_ok r"
  shows "only_answered ext debug qcd rcd srv s r t"
proof -
  have "s \<le> t" using recv_progress [of s qcd] assms(1) by simp
  moreover have "written t = written s"
    using assms(1,2) by (auto simp: recv_unframe split: option.splits)
  ultimately show ?thesis
    using assms(3) unfolding only_answered_def by (intro conjI exI [of _ "[]"]) auto
qed

lemma only_answered_step:
  assumes causal: "causal (peer s)"
    and IH: "\<And>s r. f s = Some r \<Longrightarrow> causal (peer s) \<Longrightarrow> only_answered ext debug qcd rcd srv s (fst r) (snd r)"
    and eq: "(case recv qcd s of
        (Ok message, stream1) \<Rightarrow>
          (case handle_message ext debug rcd srv message stream1 of
             (Ok Continue, stream2) \<Rightarrow> f stream2
           | (Ok Close, stream2) \<Rightarrow> Some (Ok (), stream2)
           | (Err e, stream2) \<Rightarrow> Some (Err e, stream2)
           | (Panic p, stream2) \<Rightarrow> Some (Panic p, stream2))
      | (Err _, stream1) \<Rightarrow>
          Some (Panic ''called Result::unwrap() on an Err value (recv)'', stream1)
      | (Panic p, stream1) \<Rightarrow> Some (Panic p, stream1)) = Some r"
  shows "only_answered ext debug qcd rcd srv s (fst r) (snd r)"
proof (cases "is_ok (fst (recv qcd s))")
  case True
  then obtain m s1 where rec: "recv qcd s = (Ok m, s1)" by (cases "recv qcd s") (auto simp: is_ok_def split: outcome.splits)
  then obtain p rest where p: "unframe (incoming s) = Some (p, rest)" "deserialize qcd p = Inr m"
      "s1 = s\<lparr>consumed := consumed s + (4 + length p)\<rparr>"
    by (auto simp: recv_unframe split: option.splits sum.splits)
  obtain x s2 where hm: "handle_message ext debug rcd srv m s1 = (x, s2)" by fastforce
  show ?thesis
  proof (cases "x = Ok Continue")
    case True
    then have "f s2 = Some r" using eq rec hm by simp
    moreover have "causal (peer s2)" using causal handle_message_frame [OF hm] p(3) by simp
    moreover have "m \<noteq> CloseSession" using handle_message_cases [OF hm] True by auto
    ultimately show ?thesis using only_answered_Cons [OF causal p(1,2) _ p(3)] IH hm True by blast
  next
    case False
    then have "snd r = s2" and "is_ok (fst r) \<longleftrightarrow> x = Ok Close"
      using eq rec hm by (auto split: outcome.splits connection_state.splits)
    then show ?thesis using only_answered_last [OF causal p hm] by simp
  qed
next
  case False
  then show ?thesis using eq by (auto intro: only_answered_unread split: prod.splits outcome.splits)
qed

lemma handle_connection_only_answered:
  assumes "handle_connection ext debug qcd rcd srv s = Some r" and "causal (peer s)"
  shows "only_answered ext debug qcd rcd srv s (fst r) (snd r)"
proof -
  have "causal (peer s) \<longrightarrow> only_answered ext debug qcd rcd srv s (fst r) (snd r)"
    by (rule handle_connection.raw_induct [where P = "\<lambda>ext debug qcd rcd srv s r.
        causal (peer s) \<longrightarrow> only_answered ext debug qcd rcd srv s (fst r) (snd r)", OF _ assms(1)])
      (blast intro: only_answered_step)
  then show ?thesis using assms(2) ..
qed

section \<open>A concrete enclave\<close>

text \<open>
  For concrete runs: a prover that refuses an empty program, echoes its input and charges one cycle
  per byte, a "hash" that keeps the length and the sum, a "signature" that is the digest with the
  key appended, and a driver that returns the user data and the public key as the document. Nothing
  is proved from this instance but that the hypotheses of the properties can hold together.
\<close>

definition toy_hash :: "bytes \<Rightarrow> bytes" where
  "toy_hash bs = replicate 31 0 @ [sum_list bs + of_nat (length bs)]"

definition toy_ext :: "(u8, bytes, u8, bytes, bytes) enclave_ext" where
  "toy_ext = \<lparr>
     prover_setup = (\<lambda>p. case p of [] \<Rightarrow> Inl ''bad elf'' | x # _ \<Rightarrow> Inr x),
     run_program = (\<lambda>p i c. if length i \<le> unat c then Ok i else Err ''limit''),
     bytes32_raw = (\<lambda>x. replicate 31 0 @ [x]),
     keccak256 = toy_hash,
     sign_digest_recoverable = (\<lambda>k d. Some (k # d, 1)),
     encoded_point = (\<lambda>k. 4 # replicate 63 0 @ [k]),
     point_bytes = id,
     nsm_init = 3,
     nsm_process_request = (\<lambda>fd q. Inr (case (nsm_user_data q, nsm_public_key q) of
         (Some u, Some k) \<Rightarrow> if length u = 4 then NsmDocument (u @ k) else NsmOther
       | _ \<Rightarrow> NsmOther)),
     join_error_display = id,
     join_error_debug = id,
     sp1_tee_version = 1\<rparr>"

definition toy_server :: "u8 enclave_server" where
  "toy_server = server_new \<lparr>enc_key_arn = ''none'', args_cid = None\<rparr> 7"

text \<open>A codec of requests and one of responses, one tag byte each, enough for concrete sessions.\<close>

definition toy_request_codec :: "bytes enclave_request bincode" where
  "toy_request_codec = \<lparr>
     serialize = (\<lambda>m. case m of GetPublicKey \<Rightarrow> Inr [1] | AttestSigningKey \<Rightarrow> Inr [3]
       | CloseSession \<Rightarrow> Inr [6] | Print s \<Rightarrow> (if s = [] then Inr [0] else Inl ''unsupported'')
       | Execute i p c \<Rightarrow> (if length p = 1 \<and> c = 100 then Inr (4 # p @ i) else Inl ''unsupported'')
       | _ \<Rightarrow> Inl ''unsupported''),
     deserialize = (\<lambda>bs. if bs = [1] then Inr GetPublicKey else if bs = [3] then Inr AttestSigningKey
       else if bs = [6] then Inr CloseSession else if bs = [0] then Inr (Print [])
       else (case bs of x # p # i \<Rightarrow> if x = 4 then Inr (Execute i [p] 100) else Inl ''bad tag''
             | _ \<Rightarrow> Inl ''bad length''))\<rparr>"

definition toy_response_codec :: "(bytes, bytes) enclave_response bincode" where
  "toy_response_codec = \<lparr>
     serialize = (\<lambda>m. case m of PublicKey p \<Rightarrow> Inr (1 # p) | SigningKeyAttestation d \<Rightarrow> Inr (3 # d)
       | Ack \<Rightarrow> Inr [0]
       | SignedPublicValues vk pv sig rid \<Rightarrow>
           (if length vk = 32 \<and> length sig = 33 then Inr (4 # rid # vk @ sig @ pv)
            else Inl ''unsupported'')
       | _ \<Rightarrow> Inl ''unsupported''),
     deserialize = (\<lambda>bs. case bs of [] \<Rightarrow> Inl ''empty'' | x # r \<Rightarrow>
       if x = 1 then Inr (PublicKey r) else if x = 3 then Inr (SigningKeyAttestation r)
       else if x = 0 then Inr Ack
       else if x = 4 then (case r of [] \<Rightarrow> Inl ''short'' | rid # t \<Rightarrow>
         Inr (SignedPublicValues (take 32 t) (drop 65 t) (take 33 (drop 32 t)) rid))
       else Inl ''bad tag'')\<rparr>"

lemma toy_request_codec_ok [simp]: "bincode_ok toy_request_codec"
  by (auto simp: bincode_ok_def toy_request_codec_def length_Suc_conv
      split: enclave_request.splits if_splits)

lemma toy_response_codec_ok [simp]: "bincode_ok toy_response_codec"
  by (auto simp: bincode_ok_def toy_response_codec_def
      split: enclave_response.splits if_splits)

lemmas toy_eval = toy_ext_def toy_hash_def toy_server_def server_new_def toy_request_codec_def
  toy_response_codec_def get_public_key_def attest_signing_key_def join_attestation_def
  join_execution_def execute_def execute_guarded_def to_sign_def cycle_limit_error_def
  MAX_ALLOWED_CYCLES_def

lemmas wire_eval = encodable_def fits_def u32_max_def payload_def wire_def frame_def
  to_be_bytes_def Let_def

section \<open>Properties\<close>

text \<open>
  C2. An execution is answered with signed public values exactly when the cycle limit is at most
  2^32 - 1, the prover accepts and runs the program, and the signature is made; what is signed is
  \<open>keccak(keccak(version) || vkey || keccak(public values))\<close> with the enclave's own key, for the
  verifying key and the outputs the prover returned for this very program, input and limit.
\<close>

theorem execute_signs_iff:
  "execute ext srv stdin program cycle_limit = Inr (SignedPublicValues vkey pv sig rid) \<longleftrightarrow>
   cycle_limit \<le> 4294967295 \<and>
   (\<exists>vk. prover_setup ext program = Inr vk \<and> vkey = bytes32_raw ext vk) \<and>
   run_program ext program stdin cycle_limit = Ok pv \<and>
   sign_digest_recoverable ext (signing_key srv)
     (keccak256 ext (keccak256 ext (to_le_bytes (sp1_tee_version ext)) @ vkey @ keccak256 ext pv))
     = Some (sig, rid)"
  by (auto simp: execute_def execute_guarded_def cycle_limit_error_def to_sign_def
      MAX_ALLOWED_CYCLES_def Let_def not_less split: sum.splits outcome.splits option.splits)

text \<open>
  C23. A session, at the level of bytes: on the encodings of any requests followed by \<open>CloseSession\<close>,
  the connection ends without a panic and has written exactly the encodings of the specified
  answers, in order; nothing after \<open>CloseSession\<close> is read.
\<close>

theorem handle_connection_session:
  assumes "bincode_ok qcd" and "\<forall>m \<in> set (ms @ [CloseSession]). encodable qcd m"
    and "CloseSession \<notin> set ms"
    and "\<forall>r \<in> set (answers ext debug srv ms). encodable rcd r"
    and "input = wires qcd (ms @ [CloseSession]) @ rest"
  shows "\<exists>s. handle_connection ext debug qcd rcd srv (fresh (\<lambda>_. input)) = Some (Ok (), s) \<and>
     written s = wires rcd (answers ext debug srv ms) \<and> incoming s = rest"
  using assms by (rule handle_connection_closed)

theorem handle_connection_session_witness:
  "\<exists>s. handle_connection toy_ext False toy_request_codec toy_response_codec toy_server
        (fresh (\<lambda>_. [0,0,0,1,0, 0,0,0,1,6, 9])) = Some (Ok (), s) \<and>
     written s = [0,0,0,1,0] \<and> incoming s = [9]"
proof -
  have "\<forall>m \<in> set ([Print []] @ [CloseSession]). encodable toy_request_codec m"
    and "CloseSession \<notin> set [Print []]"
    and "\<forall>r \<in> set (answers toy_ext False toy_server [Print []]). encodable toy_response_codec r"
    and "[0,0,0,1,0, 0,0,0,1,6, 9] = wires toy_request_codec ([Print []] @ [CloseSession]) @ [9]"
    by (simp_all add: wire_eval toy_request_codec_def toy_response_codec_def)
  from handle_connection_session [OF toy_request_codec_ok this]
  show ?thesis by (simp add: wire_eval toy_response_codec_def)
qed







end
