(* ===== verification/Enclave_Boot.thy ===== *)
theory Enclave_Boot
  imports Enclave_Server
begin

text \<open>
  The start of the enclave: \<open>main\<close> (\<open>enclave/src/main.rs\<close>) and \<open>Server::run\<close>
  (\<open>enclave/src/server.rs\<close>). The listener belongs to \<open>tokio_vsock\<close>: binding it to an address gives
  what \<open>accept\<close> returns one call after the other, as far as it has returned. Each accepted connection
  is served by a task of its own, whose result nobody waits for.
\<close>

record vsock_listener =
  cid_any :: u32
  bind_listener :: "u32 \<Rightarrow> u32 \<Rightarrow> (io_error, (io_error, raw_stream) outcome list) outcome"

text \<open>\<open>VsockAddr::new(cid.unwrap_or(VMADDR_CID_ANY), ENCLAVE_PORT as u32)\<close>\<close>

definition listen_address :: "vsock_listener \<Rightarrow> enclave_args \<Rightarrow> u32 \<times> u32" where
  "listen_address vl ea =
     (case args_cid ea of None \<Rightarrow> cid_any vl | Some cid \<Rightarrow> cid, ucast ENCLAVE_PORT)"

text \<open>
  The accept loop: the streams that were handed to tasks, and the panic that ended it, if one did;
  otherwise it waits for the next connection.
\<close>

fun accept_loop :: "(io_error, raw_stream) outcome list \<Rightarrow> string option \<times> raw_stream list" where
  "accept_loop [] = (None, [])"
| "accept_loop (Ok stream # rest) = (let (stopped, streams) = accept_loop rest in (stopped, stream # streams))"
| "accept_loop (Err e # rest) = (Some ''Failed to accept connection'', [])"
| "accept_loop (Panic p # rest) = (Some p, [])"

text \<open>\<open>run\<close>: how the server stopped, if it did, and what became of the task of each connection.\<close>

definition server_run ::
  "('key, 'stdin, 'vk, 'pt, 'sig) enclave_ext \<Rightarrow> bool \<Rightarrow> 'stdin enclave_request bincode \<Rightarrow>
   ('pt, 'sig) enclave_response bincode \<Rightarrow> vsock_listener \<Rightarrow> 'key enclave_server \<Rightarrow>
   string option \<times> ((string, unit) outcome \<times> raw_stream) option list" where
  "server_run ext debug qcd rcd vl srv =
     (let (cid, port) = listen_address vl (srv_args srv) in
      case bind_listener vl cid port of
        Ok accepted \<Rightarrow>
          (let (stopped, streams) = accept_loop accepted
           in (stopped, map (handle_connection ext debug qcd rcd srv) streams))
      | Err e \<Rightarrow> (Some ''Failed to bind to vsock'', [])
      | Panic p \<Rightarrow> (Some p, []))"

text \<open>\<open>main\<close>; \<open>key\<close> is the key drawn from the random generator of the system.\<close>

definition enclave_main ::
  "('key, 'stdin, 'vk, 'pt, 'sig) enclave_ext \<Rightarrow> bool \<Rightarrow> 'stdin enclave_request bincode \<Rightarrow>
   ('pt, 'sig) enclave_response bincode \<Rightarrow> vsock_listener \<Rightarrow> enclave_args \<Rightarrow> 'key \<Rightarrow>
   string option \<times> ((string, unit) outcome \<times> raw_stream) option list" where
  "enclave_main ext debug qcd rcd vl ea key = server_run ext debug qcd rcd vl (server_new ea key)"

lemma accept_loop_Ok: "accept_loop (map Ok streams @ rest) =
    (fst (accept_loop rest), streams @ snd (accept_loop rest))"
  by (induction streams) (simp_all add: split_beta)

text \<open>
  A connection is served by its own task, whatever the tasks before it did: a panic there does not
  stop the server. Only a failed \<open>accept\<close> does, and then with the connections so far still served.
\<close>

lemma enclave_main_accepted:
  assumes "bind_listener vl (fst (listen_address vl ea)) (snd (listen_address vl ea)) =
      Ok (map Ok streams @ rest)"
  shows "snd (enclave_main ext debug qcd rcd vl ea key) =
      map (handle_connection ext debug qcd rcd (server_new ea key)) (streams @ snd (accept_loop rest))"
    and "fst (enclave_main ext debug qcd rcd vl ea key) = fst (accept_loop rest)"
  using assms by (simp_all add: enclave_main_def server_run_def server_new_def accept_loop_Ok split_beta)

lemma enclave_main_nth:
  assumes "bind_listener vl (fst (listen_address vl ea)) (snd (listen_address vl ea)) =
      Ok (map Ok streams @ Ok stream # rest)"
  shows "snd (enclave_main ext debug qcd rcd vl ea key) ! length streams =
      handle_connection ext debug qcd rcd (server_new ea key) stream"
  using enclave_main_accepted(1) [of vl ea "streams @ [stream]" rest ext debug qcd rcd key] assms
  by (simp add: nth_append)

lemma accept_loop_goes_on: "fst (accept_loop accepted) = None \<longleftrightarrow> (\<exists>streams. accepted = map Ok streams)"
proof (induction accepted rule: accept_loop.induct)
  case (2 stream rest)
  then show ?case by (auto simp: split_beta Cons_eq_map_conv)
qed auto

end
