(* ===== verification/Enclave_Concurrency.thy ===== *)
theory Enclave_Concurrency
  imports Enclave_Server
begin

text \<open>
  All connections of the enclave at once: \<open>Server::run\<close> accepts connections and spawns a task for
  each, the tasks interleave freely, and \<open>execution_guard\<close> admits one execution at a time
  (\<open>enclave/src/server.rs\<close>). A step is one task moving between two points where it can be
  suspended: a receive, the wait for the guard, the end of the guarded part, a send.

  The step relation says what each task does; the sequential specification \<open>replies_of\<close> says what it
  should amount to. Messages stand for their frames here, which \<open>Communication\<close> justifies.
\<close>

section \<open>The state\<close>

text \<open>
  Where the task of a connection is. \<open>Answering\<close> has released the guard and not yet sent its answer;
  \<open>Crashed\<close> is a failed \<open>unwrap\<close> on a receive or a send, with the request it was working on.
\<close>

datatype ('stdin, 'pt, 'sig) phase =
    Receiving
  | WaitingGuard 'stdin bytes u64
  | is_Executing: Executing 'stdin bytes u64
  | Answering 'stdin bytes u64 "('pt, 'sig) enclave_response"
  | Finished
  | Crashed "'stdin enclave_request list"

record ('stdin, 'pt, 'sig) conn =
  arrived :: "'stdin enclave_request list"
  inbox :: "'stdin enclave_request list"
  served :: "'stdin enclave_request list"
  replies :: "('pt, 'sig) enclave_response list"
  phase :: "('stdin, 'pt, 'sig) phase"

record ('key, 'stdin, 'pt, 'sig) enclave_sys =
  server :: "'key enclave_server"
  execution_guard :: "nat option"
  conns :: "nat \<Rightarrow> ('stdin, 'pt, 'sig) conn option"

definition new_conn :: "('stdin, 'pt, 'sig) conn" where
  "new_conn = \<lparr>arrived = [], inbox = [], served = [], replies = [], phase = Receiving\<rparr>"

definition enclave_start :: "'key enclave_server \<Rightarrow> ('key, 'stdin, 'pt, 'sig) enclave_sys" where
  "enclave_start srv = \<lparr>server = srv, execution_guard = None, conns = Map.empty\<rparr>"

definition set_conn ::
  "nat \<Rightarrow> ('stdin, 'pt, 'sig) conn \<Rightarrow> ('key, 'stdin, 'pt, 'sig) enclave_sys \<Rightarrow>
   ('key, 'stdin, 'pt, 'sig) enclave_sys" where
  "set_conn i c s = s\<lparr>conns := (conns s)(i \<mapsto> c)\<rparr>"

text \<open>Whether a request reaches the guarded part of \<open>execute\<close>.\<close>

fun needs_guard :: "'stdin enclave_request \<Rightarrow> bool" where
  "needs_guard (Execute stdin program cycle_limit) \<longleftrightarrow> cycle_limit \<le> MAX_ALLOWED_CYCLES"
| "needs_guard _ \<longleftrightarrow> False"

section \<open>The steps\<close>

inductive enclave_step ::
  "('key, 'stdin, 'vk, 'pt, 'sig) enclave_ext \<Rightarrow> bool \<Rightarrow>
   ('key, 'stdin, 'pt, 'sig) enclave_sys \<Rightarrow> ('key, 'stdin, 'pt, 'sig) enclave_sys \<Rightarrow> bool"
  for ext debug where
  accept: "conns s i = None \<Longrightarrow> enclave_step ext debug s (set_conn i new_conn s)"
| arrive: "conns s i = Some c \<Longrightarrow>
     enclave_step ext debug s
       (set_conn i (c\<lparr>arrived := arrived c @ [m], inbox := inbox c @ [m]\<rparr>) s)"
| serve: "conns s i = Some c \<Longrightarrow> phase c = Receiving \<Longrightarrow> inbox c = m # ms \<Longrightarrow> \<not> needs_guard m \<Longrightarrow>
     enclave_step ext debug s
       (set_conn i (c\<lparr>inbox := ms, served := served c @ [m],
          replies := replies c @ replies_of ext debug (server s) m,
          phase := (if m = CloseSession then Finished else Receiving)\<rparr>) s)"
| queue: "conns s i = Some c \<Longrightarrow> phase c = Receiving \<Longrightarrow>
     inbox c = Execute stdin program limit # ms \<Longrightarrow> needs_guard (Execute stdin program limit) \<Longrightarrow>
     enclave_step ext debug s
       (set_conn i (c\<lparr>inbox := ms, phase := WaitingGuard stdin program limit\<rparr>) s)"
| lock: "conns s i = Some c \<Longrightarrow> phase c = WaitingGuard stdin program limit \<Longrightarrow>
     execution_guard s = None \<Longrightarrow>
     enclave_step ext debug s
       (set_conn i (c\<lparr>phase := Executing stdin program limit\<rparr>) (s\<lparr>execution_guard := Some i\<rparr>))"
| unlock: "conns s i = Some c \<Longrightarrow> phase c = Executing stdin program limit \<Longrightarrow>
     enclave_step ext debug s
       (set_conn i (c\<lparr>phase := Answering stdin program limit
          (join_execution ext (execute_guarded ext (server s) stdin program limit))\<rparr>)
         (s\<lparr>execution_guard := None\<rparr>))"
| answer: "conns s i = Some c \<Longrightarrow> phase c = Answering stdin program limit r \<Longrightarrow>
     enclave_step ext debug s
       (set_conn i (c\<lparr>served := served c @ [Execute stdin program limit],
          replies := replies c @ [r], phase := Receiving\<rparr>) s)"
| lost: "conns s i = Some c \<Longrightarrow> phase c = Receiving \<Longrightarrow>
     enclave_step ext debug s (set_conn i (c\<lparr>phase := Crashed []\<rparr>) s)"
| lost_serving: "conns s i = Some c \<Longrightarrow> phase c = Receiving \<Longrightarrow> inbox c = m # ms \<Longrightarrow> \<not> needs_guard m \<Longrightarrow>
     enclave_step ext debug s (set_conn i (c\<lparr>inbox := ms, phase := Crashed [m]\<rparr>) s)"
| lost_answering: "conns s i = Some c \<Longrightarrow> phase c = Answering stdin program limit r \<Longrightarrow>
     enclave_step ext debug s
       (set_conn i (c\<lparr>phase := Crashed [Execute stdin program limit]\<rparr>) s)"

section \<open>The invariant\<close>

definition executing :: "('key, 'stdin, 'pt, 'sig) enclave_sys \<Rightarrow> nat \<Rightarrow> bool" where
  "executing s i \<longleftrightarrow>
     (case conns s i of None \<Rightarrow> False | Some c \<Rightarrow> is_Executing (phase c))"

text \<open>The request a task has taken from its inbox and not finished.\<close>

fun in_hand :: "('stdin, 'pt, 'sig) phase \<Rightarrow> 'stdin enclave_request list" where
  "in_hand (WaitingGuard stdin program limit) = [Execute stdin program limit]"
| "in_hand (Executing stdin program limit) = [Execute stdin program limit]"
| "in_hand (Answering stdin program limit r) = [Execute stdin program limit]"
| "in_hand (Crashed ms) = ms"
| "in_hand _ = []"

definition conn_inv ::
  "('key, 'stdin, 'vk, 'pt, 'sig) enclave_ext \<Rightarrow> bool \<Rightarrow> 'key enclave_server \<Rightarrow>
   ('stdin, 'pt, 'sig) conn \<Rightarrow> bool" where
  "conn_inv ext debug srv c \<longleftrightarrow>
     replies c = answers ext debug srv (served c) \<and>
     arrived c = served c @ in_hand (phase c) @ inbox c \<and>
     (case phase c of
        WaitingGuard stdin program limit \<Rightarrow> limit \<le> MAX_ALLOWED_CYCLES
      | Executing stdin program limit \<Rightarrow> limit \<le> MAX_ALLOWED_CYCLES
      | Answering stdin program limit r \<Rightarrow>
          limit \<le> MAX_ALLOWED_CYCLES \<and>
          r = join_execution ext (execute ext srv stdin program limit)
      | _ \<Rightarrow> True)"

definition sys_inv ::
  "('key, 'stdin, 'vk, 'pt, 'sig) enclave_ext \<Rightarrow> bool \<Rightarrow> 'key enclave_server \<Rightarrow>
   ('key, 'stdin, 'pt, 'sig) enclave_sys \<Rightarrow> bool" where
  "sys_inv ext debug srv s \<longleftrightarrow>
     server s = srv \<and>
     (\<forall>i. executing s i \<longleftrightarrow> execution_guard s = Some i) \<and>
     (\<forall>i c. conns s i = Some c \<longrightarrow> conn_inv ext debug srv c)"

lemma set_conn_simps [simp]:
  "server (set_conn i c s) = server s"
  "execution_guard (set_conn i c s) = execution_guard s"
  "conns (set_conn i c s) = (conns s)(i \<mapsto> c)"
  by (simp_all add: set_conn_def)

lemma executing_set_conn [simp]:
  "executing (set_conn i c s) j =
     (if j = i then is_Executing (phase c) else executing s j)"
  by (simp add: executing_def)

lemma executing_guard [simp]: "executing (s\<lparr>execution_guard := g\<rparr>) j = executing s j"
  by (simp add: executing_def)

lemma executing_phase:
  "conns s i = Some c \<Longrightarrow> executing s i = is_Executing (phase c)"
  by (simp add: executing_def)

lemma sys_inv_start: "sys_inv ext debug srv (enclave_start srv)"
  by (simp add: sys_inv_def enclave_start_def executing_def)

text \<open>A step changes one connection and the guard: the invariant is kept if both changes agree.\<close>

lemma sys_inv_set_conn:
  assumes "sys_inv ext debug srv s" and "conn_inv ext debug srv c"
    and "\<And>j. executing (set_conn i c s) j \<longleftrightarrow> g = Some j"
  shows "sys_inv ext debug srv (set_conn i c (s\<lparr>execution_guard := g\<rparr>))"
  using assms by (auto simp: sys_inv_def set_conn_def executing_def)

lemma sys_inv_set_conn_same:
  assumes inv: "sys_inv ext debug srv s" and c: "conns s i = Some c"
    and "conn_inv ext debug srv c'" and ph: "is_Executing (phase c') = is_Executing (phase c)"
  shows "sys_inv ext debug srv (set_conn i c' s)"
proof -
  have "executing (set_conn i c' s) j = executing s j" for j
    using c ph by (simp add: executing_phase)
  then show ?thesis using assms by (auto simp: sys_inv_def simp del: executing_set_conn)
qed

lemma conn_inv_of: "sys_inv ext debug srv s \<Longrightarrow> conns s i = Some c \<Longrightarrow> conn_inv ext debug srv c"
  by (simp add: sys_inv_def)

lemma server_of: "sys_inv ext debug srv s \<Longrightarrow> server s = srv"
  by (simp add: sys_inv_def)

lemma executing_iff: "sys_inv ext debug srv s \<Longrightarrow> executing s i \<longleftrightarrow> execution_guard s = Some i"
  by (simp add: sys_inv_def)

lemma sys_inv_step:
  assumes "sys_inv ext debug srv s" and "enclave_step ext debug s t"
  shows "sys_inv ext debug srv t"
  using assms(2,1)
proof (induction rule: enclave_step.induct)
  case (accept s i)
  moreover have "\<not> executing s i" using accept by (simp add: executing_def)
  ultimately show ?case
    by (auto simp: sys_inv_def new_conn_def conn_inv_def)
next
  case (lock s i c stdin program limit)
  then show ?case
    using conn_inv_of [OF lock.prems lock.hyps(1)]
    by (intro sys_inv_set_conn) (auto simp: conn_inv_def executing_iff)
next
  case (unlock s i c stdin program limit)
  have "execution_guard s = Some i"
    using unlock executing_iff [OF unlock.prems, of i] by (simp add: executing_phase)
  then show ?case
    using unlock conn_inv_of [OF unlock.prems unlock.hyps(1)]
    by (intro sys_inv_set_conn)
      (auto simp: conn_inv_def executing_iff server_of execute_def not_less)
next
  case (arrive s i c m)
  then show ?case
    using conn_inv_of [OF arrive.prems arrive.hyps(1)]
    by (intro sys_inv_set_conn_same [OF arrive.prems arrive.hyps(1)])
      (auto simp: conn_inv_def server_of not_le)
next
  case (serve s i c m ms)
  then show ?case
    using conn_inv_of [OF serve.prems serve.hyps(1)]
    by (intro sys_inv_set_conn_same [OF serve.prems serve.hyps(1)])
      (auto simp: conn_inv_def server_of not_le)
next
  case (queue s i c stdin program limit ms)
  then show ?case
    using conn_inv_of [OF queue.prems queue.hyps(1)]
    by (intro sys_inv_set_conn_same [OF queue.prems queue.hyps(1)])
      (auto simp: conn_inv_def server_of not_le)
next
  case (answer s i c stdin program limit r)
  then show ?case
    using conn_inv_of [OF answer.prems answer.hyps(1)]
    by (intro sys_inv_set_conn_same [OF answer.prems answer.hyps(1)])
      (auto simp: conn_inv_def server_of not_le)
next
  case (lost s i c)
  then show ?case
    using conn_inv_of [OF lost.prems lost.hyps(1)]
    by (intro sys_inv_set_conn_same [OF lost.prems lost.hyps(1)])
      (auto simp: conn_inv_def server_of not_le)
next
  case (lost_serving s i c m ms)
  then show ?case
    using conn_inv_of [OF lost_serving.prems lost_serving.hyps(1)]
    by (intro sys_inv_set_conn_same [OF lost_serving.prems lost_serving.hyps(1)])
      (auto simp: conn_inv_def server_of not_le)
next
  case (lost_answering s i c stdin program limit r)
  then show ?case
    using conn_inv_of [OF lost_answering.prems lost_answering.hyps(1)]
    by (intro sys_inv_set_conn_same [OF lost_answering.prems lost_answering.hyps(1)])
      (auto simp: conn_inv_def server_of not_le)
qed

text \<open>The guard and the executions keep the contract of a mutex and its critical section.\<close>

interpretation enclave: guarded_system "\<lambda>s. s = enclave_start srv" "enclave_step ext debug"
    "sys_inv ext debug srv" execution_guard executing
  for ext :: "('key, 'stdin, 'vk, 'pt, 'sig) enclave_ext" and debug and srv
  by unfold_locales (auto simp: sys_inv_start executing_iff elim: sys_inv_step)

lemmas enclave_reach = enclave.reach_inv [OF refl]

section \<open>Runs of the other tasks do not matter\<close>

lemma step_conns:
  "enclave_step ext debug s t \<Longrightarrow> conns s i = Some c \<Longrightarrow> \<exists>c'. conns t i = Some c'"
  by (induction rule: enclave_step.induct) auto

inductive_cases enclave_stepE: "enclave_step ext debug s t"

text \<open>From a state where \<open>i\<close> waits, whoever holds the guard can release it, and then \<open>i\<close> can go on.\<close>

lemma waiting_unlocks:
  assumes inv: "sys_inv ext debug srv s" and c: "conns s i = Some c"
    and ph: "phase c = WaitingGuard stdin program limit"
  shows "\<exists>t. rtranclp (enclave_step ext debug) s t \<and> conns t i = Some c \<and>
    execution_guard t = None \<and> sys_inv ext debug srv t"
proof (cases "execution_guard s")
  case None
  then show ?thesis using inv c by blast
next
  case (Some j)
  then have "executing s j" using inv by (simp add: executing_iff)
  then obtain d sd pd ld where d: "conns s j = Some d" "phase d = Executing sd pd ld"
    by (auto simp: executing_def is_Executing_def split: option.splits)
  define t where "t = set_conn j (d\<lparr>phase := Answering sd pd ld
    (join_execution ext (execute_guarded ext (server s) sd pd ld))\<rparr>) (s\<lparr>execution_guard := None\<rparr>)"
  have step: "enclave_step ext debug s t" unfolding t_def by (rule enclave_step.unlock [OF d])
  moreover have "i \<noteq> j" using c d ph by auto
  ultimately show ?thesis
    using c sys_inv_step [OF inv step] by (intro exI [of _ t]) (auto simp: t_def)
qed

text \<open>A run of two connections, for the witnesses: the first executes while the second waits.\<close>

definition job :: "bytes enclave_request" where
  "job = Execute [5] [1] 100"

definition busy_sys :: "(u8, bytes, bytes, bytes) enclave_sys" where
  "busy_sys = \<lparr>server = toy_server, execution_guard = Some 0,
     conns = [0 \<mapsto> \<lparr>arrived = [job], inbox = [], served = [], replies = [], phase = Executing [5] [1] 100\<rparr>,
              1 \<mapsto> \<lparr>arrived = [job], inbox = [], served = [], replies = [], phase = WaitingGuard [5] [1] 100\<rparr>]\<rparr>"

lemma busy_reachable: "rtranclp (enclave_step toy_ext False) (enclave_start toy_server) busy_sys"
proof -
  let ?step = "enclave_step toy_ext False"
  define c1 :: "(bytes, bytes, bytes) conn" where "c1 = new_conn\<lparr>arrived := [job], inbox := [job]\<rparr>"
  define c2 where "c2 = c1\<lparr>inbox := [], phase := WaitingGuard [5] [1] 100\<rparr>"
  have guard: "needs_guard job" by (simp add: job_def MAX_ALLOWED_CYCLES_def)
  have start: "rtranclp ?step s (set_conn i c2 s)" if "conns s i = None" for s i
  proof -
    have "?step s (set_conn i new_conn s)" using that by (rule enclave_step.accept)
    moreover have "?step (set_conn i new_conn s) (set_conn i c1 s)"
      using enclave_step.arrive [of "set_conn i new_conn s" i new_conn toy_ext False job]
      by (simp add: c1_def new_conn_def set_conn_def)
    moreover have "?step (set_conn i c1 s) (set_conn i c2 s)"
      using enclave_step.queue [of "set_conn i c1 s" i c1 "[5]" "[1]" 100 "[]" toy_ext False] guard
      by (simp add: c1_def c2_def new_conn_def set_conn_def job_def)
    ultimately show ?thesis by (meson rtranclp.rtrancl_into_rtrancl rtranclp.rtrancl_refl)
  qed
  let ?s0 = "enclave_start toy_server"
  let ?s1 = "set_conn 0 c2 ?s0"
  let ?s2 = "set_conn (Suc 0) c2 ?s1"
  let ?s3 = "set_conn 0 (c2\<lparr>phase := Executing [5] [1] 100\<rparr>) (?s2\<lparr>execution_guard := Some 0\<rparr>)"
  have "rtranclp ?step ?s0 ?s1" by (rule start) (simp add: enclave_start_def)
  moreover have "rtranclp ?step ?s1 ?s2" by (rule start) (simp add: enclave_start_def)
  moreover have "?step ?s2 ?s3"
    by (rule enclave_step.lock) (simp_all add: c2_def enclave_start_def)
  ultimately have "rtranclp ?step ?s0 ?s3" by (meson rtranclp_trans rtranclp.rtrancl_into_rtrancl)
  moreover have "?s3 = busy_sys"
    by (auto simp: busy_sys_def set_conn_def enclave_start_def c2_def c1_def new_conn_def)
  ultimately show ?thesis by simp
qed

lemma served_reachable:
  "\<exists>t c. rtranclp (enclave_step toy_ext False) (enclave_start toy_server) t \<and>
     conns t 0 = Some c \<and> served c = [job]"
proof -
  let ?step = "enclave_step toy_ext False"
  define c :: "(bytes, bytes, bytes) conn" where "c = \<lparr>arrived = [job], inbox = [], served = [],
    replies = [], phase = Executing [5] [1] 100\<rparr>"
  define r where "r = join_execution toy_ext (execute_guarded toy_ext toy_server [5] [1] 100)"
  define c1 where "c1 = c\<lparr>phase := Answering [5] [1] 100 r\<rparr>"
  define t1 where "t1 = set_conn 0 c1 (busy_sys\<lparr>execution_guard := None\<rparr>)"
  define c2 where
    "c2 = c1\<lparr>served := served c1 @ [job], replies := replies c1 @ [r], phase := Receiving\<rparr>"
  have "?step busy_sys t1"
    using enclave_step.unlock [of busy_sys 0 c "[5]" "[1]" 100 toy_ext False]
    by (simp add: busy_sys_def c_def c1_def t1_def r_def)
  moreover have "?step t1 (set_conn 0 c2 t1)"
    unfolding c2_def job_def by (rule enclave_step.answer) (simp_all add: t1_def c1_def)
  ultimately have "rtranclp ?step (enclave_start toy_server) (set_conn 0 c2 t1)"
    using busy_reachable by (meson rtranclp.rtrancl_into_rtrancl)
  then show ?thesis by (intro exI [of _ "set_conn 0 c2 t1"]) (auto simp: c2_def c1_def c_def)
qed

section \<open>Properties\<close>

text \<open>
  C9. In every reachable state of the enclave at most one execution is running, whatever the
  connections, the requests and their interleaving: the memory set aside for the enclave is never
  used by two.
\<close>

theorem one_execution_at_a_time:
  assumes "rtranclp (enclave_step ext debug) (enclave_start srv) s"
    and "executing s i" and "executing s j"
  shows "i = j"
  using enclave.mutual_exclusion [OF refl assms] .

theorem one_execution_at_a_time_witness: "{j. executing busy_sys j} = {0}"
proof -
  have "executing busy_sys 0" by (simp add: busy_sys_def executing_def)
  then show ?thesis using one_execution_at_a_time [OF busy_reachable] by auto
qed



text \<open>
  The guard is never leaked: when no execution is running (also after one that panicked, or
  whose host has gone away), the guard is free.
\<close>

lemma guard_never_leaked:
  assumes "rtranclp (enclave_step ext debug) (enclave_start srv) s"
    and "\<forall>i. \<not> executing s i"
  shows "execution_guard s = None"
  using enclave.not_leaked [OF refl assms] .

lemma guard_never_leaked_witness:
  "execution_guard (enclave_start toy_server :: (u8, bytes, bytes, bytes) enclave_sys) = None"
  by (rule guard_never_leaked [where ext = toy_ext and debug = False and srv = toy_server])
    (simp_all add: enclave_start_def executing_def)

text \<open>
  An execution waiting for the guard is never stuck: from every reachable state in which it
  waits there is a run that answers it, with the specified answer, after whatever the connection was
  answered before.
\<close>

lemma waiting_execution_can_be_answered:
  assumes "rtranclp (enclave_step ext debug) (enclave_start srv) s" and "conns s i = Some c"
    and "phase c = WaitingGuard stdin program limit"
  shows "\<exists>t c'. rtranclp (enclave_step ext debug) s t \<and> conns t i = Some c' \<and>
    phase c' = Receiving \<and> served c' = served c @ [Execute stdin program limit] \<and>
    replies c' = replies c @ [join_execution ext (execute ext srv stdin program limit)]"
proof -
  obtain t where t: "rtranclp (enclave_step ext debug) s t" "conns t i = Some c"
      "execution_guard t = None" "sys_inv ext debug srv t"
    using waiting_unlocks [OF enclave_reach [OF assms(1)] assms(2,3)] by blast
  define t1 where
    "t1 = set_conn i (c\<lparr>phase := Executing stdin program limit\<rparr>) (t\<lparr>execution_guard := Some i\<rparr>)"
  define r where "r = join_execution ext (execute_guarded ext (server t1) stdin program limit)"
  define c2 where "c2 = c\<lparr>phase := Answering stdin program limit r\<rparr>"
  define t2 where "t2 = set_conn i c2 (t1\<lparr>execution_guard := None\<rparr>)"
  define c3 where "c3 = c2\<lparr>served := served c2 @ [Execute stdin program limit],
    replies := replies c2 @ [r], phase := Receiving\<rparr>"
  have "enclave_step ext debug t t1"
    unfolding t1_def by (rule enclave_step.lock [OF t(2) assms(3) t(3)])
  moreover have "enclave_step ext debug t1 t2"
    using enclave_step.unlock [of t1 i "c\<lparr>phase := Executing stdin program limit\<rparr>" stdin program limit]
    by (simp add: t1_def t2_def c2_def r_def)
  moreover have "enclave_step ext debug t2 (set_conn i c3 t2)"
    unfolding c3_def by (rule enclave_step.answer) (simp_all add: t2_def c2_def)
  ultimately have "rtranclp (enclave_step ext debug) s (set_conn i c3 t2)"
    using t(1) by (meson rtranclp.rtrancl_into_rtrancl)
  moreover have "r = join_execution ext (execute ext srv stdin program limit)"
    using conn_inv_of [OF t(4,2)] assms(3) server_of [OF t(4)]
    by (simp add: r_def t1_def conn_inv_def execute_def not_less [symmetric])
  ultimately show ?thesis by (intro exI [of _ "set_conn i c3 t2"]) (auto simp: c3_def c2_def)
qed

lemma waiting_execution_can_be_answered_witness:
  "\<exists>t c. rtranclp (enclave_step toy_ext False) busy_sys t \<and> conns t (Suc 0) = Some c \<and>
    served c = [job] \<and>
    replies c = [SignedPublicValues (replicate 31 0 @ [1]) [5] (7 # replicate 31 0 @ [108]) 1]"
proof -
  have "conns busy_sys (Suc 0) = Some \<lparr>arrived = [job], inbox = [], served = [], replies = [],
      phase = WaitingGuard [5] [1] 100\<rparr>"
    by (simp add: busy_sys_def)
  from waiting_execution_can_be_answered [OF busy_reachable this]
  obtain t c where "rtranclp (enclave_step toy_ext False) busy_sys t" "conns t (Suc 0) = Some c"
      "served c = [job]" "replies c = [join_execution toy_ext (execute toy_ext toy_server [5] [1] 100)]"
    by (auto simp: job_def)
  moreover have "join_execution toy_ext (execute toy_ext toy_server [5] [1] 100) =
      SignedPublicValues (replicate 31 0 @ [1]) [5] (7 # replicate 31 0 @ [108]) 1"
    by (simp add: toy_eval to_le_bytes_def to_be_bytes_def Let_def sum_list_replicate)
  ultimately show ?thesis by auto
qed

end
