(* ===== verification/Enclave_Ffi.thy ===== *)
theory Enclave_Ffi
  imports Tee_Prelude
begin

text \<open>
  The byte buffer the enclave shares with the Nitro SDK's C library: \<open>enclave/src/ffi.rs\<close> and
  \<open>enclave/src/ffi/bytebuf.rs\<close>, and the build script that links the library. The heap maps the address of each live block to its contents, whose
  length is the size the block was allocated with. The global allocator and the C function
  \<open>aws_byte_buf_clean_up\<close> are parameters. What the documentation of \<open>std::alloc\<close> and of \<open>std::ptr\<close>
  calls undefined behaviour is an \<open>Err\<close>.
\<close>

section \<open>The heap\<close>

type_synonym heap = "nat \<Rightarrow> bytes option"

text \<open>\<open>alloc heap size\<close>: \<open>None\<close> is the null pointer.\<close>

type_synonym allocator = "heap \<Rightarrow> nat \<Rightarrow> nat option"

datatype undefined_behaviour = ZeroSizedLayout | WriteToNull | NotAllocated nat | WrongLayout nat nat

text \<open>An allocator returns a block that is not in use, at an address other than null.\<close>

definition allocator_ok :: "allocator \<Rightarrow> bool" where
  "allocator_ok alloc \<longleftrightarrow> (\<forall>h n p. alloc h n = Some p \<longrightarrow> h p = None \<and> p \<noteq> 0)"

text \<open>\<open>std::alloc::alloc\<close>, \<open>ptr::copy_nonoverlapping\<close> of a whole slice, \<open>std::alloc::dealloc\<close>.\<close>

definition rust_alloc :: "allocator \<Rightarrow> heap \<Rightarrow> nat \<Rightarrow> (undefined_behaviour, nat \<times> heap) outcome" where
  "rust_alloc alloc h sz =
     (if sz = 0 then Err ZeroSizedLayout
      else (case alloc h sz of
              None \<Rightarrow> Ok (0, h)
            | Some p \<Rightarrow> Ok (p, h(p \<mapsto> replicate sz 0))))"

definition copy_slice :: "heap \<Rightarrow> bytes \<Rightarrow> nat \<Rightarrow> (undefined_behaviour, heap) outcome" where
  "copy_slice h value p =
     (if p = 0 then Err WriteToNull
      else (case h p of
              None \<Rightarrow> Err (NotAllocated p)
            | Some old \<Rightarrow>
                if length value \<le> length old then Ok (h(p \<mapsto> value @ drop (length value) old))
                else Err (WrongLayout (length value) (length old))))"

definition rust_dealloc :: "heap \<Rightarrow> nat \<Rightarrow> nat \<Rightarrow> (undefined_behaviour, heap) outcome" where
  "rust_dealloc h p sz =
     (case h p of
        None \<Rightarrow> Err (NotAllocated p)
      | Some block \<Rightarrow>
          if sz = length block then Ok (h(p := None)) else Err (WrongLayout sz (length block)))"

section \<open>The buffer\<close>

record aws_byte_buf =
  buf_len :: nat
  buf_buffer :: nat
  buf_capacity :: nat
  buf_allocator :: nat

definition isize_max :: nat where
  "isize_max = 2 ^ 63 - 1"

definition byte_buf_from ::
  "bool \<Rightarrow> allocator \<Rightarrow> heap \<Rightarrow> bytes \<Rightarrow> (undefined_behaviour, aws_byte_buf \<times> heap) outcome" where
  "byte_buf_from debug_assertions alloc h value =
     (if debug_assertions \<and> \<not> length value < isize_max
      then Panic ''assertion failed: value.len() < isize::MAX as usize''
      else
        let len = length value in
        and_then (rust_alloc alloc h len) (\<lambda>(buffer, h1).
        and_then (copy_slice h1 value buffer) (\<lambda>h2.
          Ok (\<lparr>buf_len = len, buf_buffer = buffer, buf_capacity = len, buf_allocator = 0\<rparr>, h2))))"

text \<open>\<open>From<Vec<u8>>\<close>: the slice of the vector is copied; the vector is dropped by its own code.\<close>

definition byte_buf_from_vec ::
  "bool \<Rightarrow> allocator \<Rightarrow> heap \<Rightarrow> bytes \<Rightarrow> (undefined_behaviour, aws_byte_buf \<times> heap) outcome" where
  "byte_buf_from_vec debug_assertions alloc h value = byte_buf_from debug_assertions alloc h value"

definition byte_buf_drop ::
  "(aws_byte_buf \<Rightarrow> heap \<Rightarrow> (undefined_behaviour, heap) outcome) \<Rightarrow> heap \<Rightarrow> aws_byte_buf \<Rightarrow>
   (undefined_behaviour, heap) outcome" where
  "byte_buf_drop aws_byte_buf_clean_up h b =
     (if buf_allocator b = 0 then rust_dealloc h (buf_buffer b) (buf_len b)
      else aws_byte_buf_clean_up b h)"

section \<open>Linking the SDK\<close>

text \<open>
  \<open>enclave/build.rs\<close> builds the SDK with cmake and prints what the linker is to link, in an order in
  which a static library stands before those it needs. \<open>cmake\<close> takes the sources and the compiler flags and
  returns the directory of the build.
\<close>

datatype link_directive = LinkSearchNative string | LinkStatic string

definition linked_libraries :: "string list" where
  "linked_libraries = [''aws-nitro-enclaves-sdk-c'', ''aws-c-auth'', ''aws-c-http'', ''aws-c-io'',
     ''aws-c-compression'', ''aws-c-sdkutils'', ''aws-c-cal'', ''aws-c-common'', ''s2n'', ''crypto'']"

definition build_script :: "bool \<Rightarrow> (string \<Rightarrow> string list \<Rightarrow> string) \<Rightarrow> link_directive list" where
  "build_script macos cmake =
     (if macos then []
      else
        let dst = cmake ''aws-nitro-enclaves-sdk-c'' [''-Wno-error=maybe-uninitialized''] in
        LinkSearchNative (dst @ ''/lib64'') # map LinkStatic linked_libraries)"

text \<open>The dependencies that the comments of the script name.\<close>

definition needs_library :: "string \<Rightarrow> string \<Rightarrow> bool" where
  "needs_library a b \<longleftrightarrow>
     a = ''aws-c-auth'' \<and> b \<in> {''aws-c-http'', ''aws-c-io''} \<or>
     a \<in> {''aws-c-auth'', ''aws-c-http''} \<and>
       b \<in> {''aws-c-compression'', ''aws-c-sdkutils'', ''aws-c-cal'', ''aws-c-common''} \<or>
     a = ''s2n'' \<and> b = ''crypto''"

lemma no_library_too_early: "sorted_wrt (\<lambda>a b. \<not> needs_library b a) linked_libraries"
  by (simp add: linked_libraries_def needs_library_def)

section \<open>Properties\<close>

text \<open>
  C39. The life of a buffer made from a slice. It is undefined behaviour on the empty slice (a
  zero-sized allocation) and when memory is exhausted (the null pointer is not checked), and only
  then. Otherwise the buffer holds the slice in a block of its own, leaving every other block alone;
  dropping it gives back exactly the heap there was, so nothing leaks, and dropping it a second time
  is undefined. If the C side has changed its length in between, to a number of bytes below its
  capacity, the drop is undefined: it deallocates with the length, not the capacity.
\<close>

theorem byte_buf_lifecycle:
  assumes "allocator_ok alloc" and "length value < isize_max"
  shows "if value = [] \<or> alloc h (length value) = None
     then \<exists>ub. byte_buf_from debug_assertions alloc h value = Err ub
     else \<exists>b h'. byte_buf_from debug_assertions alloc h value = Ok (b, h') \<and>
       h' (buf_buffer b) = Some value \<and> h (buf_buffer b) = None \<and>
       (\<forall>p. p \<noteq> buf_buffer b \<longrightarrow> h' p = h p) \<and>
       byte_buf_drop clean_up h' b = Ok h \<and>
       byte_buf_drop clean_up h b = Err (NotAllocated (buf_buffer b)) \<and>
       (\<forall>n. is_ok (byte_buf_drop clean_up h' (b\<lparr>buf_len := n\<rparr>)) \<longleftrightarrow> n = buf_capacity b)"
proof (cases "value = [] \<or> alloc h (length value) = None")
  case True
  then show ?thesis
    using assms(2) by (auto simp: byte_buf_from_def rust_alloc_def copy_slice_def Let_def)
next
  case False
  then obtain p where p: "alloc h (length value) = Some p" "h p = None" "p \<noteq> 0"
    using assms(1) by (auto simp: allocator_ok_def)
  then have "h(p := None) = h" by auto
  with p False assms(2) show ?thesis
    by (auto simp: byte_buf_from_def rust_alloc_def copy_slice_def byte_buf_drop_def
        rust_dealloc_def Let_def)
qed

theorem byte_buf_lifecycle_witness:
  "\<exists>b h'. byte_buf_from True (\<lambda>h n. if h 8 = None then Some 8 else None) Map.empty [1, 2] = Ok (b, h') \<and>
     h' (buf_buffer b) = Some [1, 2] \<and> byte_buf_drop (\<lambda>b h. Ok h) h' b = Ok Map.empty \<and>
     \<not> is_ok (byte_buf_drop (\<lambda>b h. Ok h) h' (b\<lparr>buf_len := 1\<rparr>))"
proof -
  let ?alloc = "\<lambda>(h :: heap) (n :: nat). if h 8 = None then Some (8 :: nat) else None"
  have "allocator_ok ?alloc" by (simp add: allocator_ok_def)
  from byte_buf_lifecycle [OF this, of "[1, 2]" Map.empty True "\<lambda>b h. Ok h"]
  obtain b h' where b: "byte_buf_from True ?alloc Map.empty [1, 2] = Ok (b, h')"
      "h' (buf_buffer b) = Some [1, 2]" "byte_buf_drop (\<lambda>b h. Ok h) h' b = Ok Map.empty"
      "\<forall>n. is_ok (byte_buf_drop (\<lambda>b h. Ok h) h' (b\<lparr>buf_len := n\<rparr>)) \<longleftrightarrow> n = buf_capacity b"
    by (auto simp: isize_max_def)
  moreover have "buf_capacity b = 2"
    using b(1) by (auto simp: byte_buf_from_def rust_alloc_def copy_slice_def isize_max_def Let_def)
  ultimately show ?thesis by (intro exI [of _ b] exI [of _ h']) simp
qed

end
