(* ===== verification/Contract_Signers.thy ===== *)
theory Contract_Signers
  imports Interfaces
begin

text \<open>
  The signers map of the verifier contract: \<open>contracts/src/SignersMap.sol\<close>. A mapping for membership,
  an array for listing, and the index of each member in the array, so that a member is removed by
  moving the last one into its place. Solidity's checked operations (subtraction, array access, pop)
  are written out: where they fail the call reverts with a panic code. Array lengths are naturals;
  an array of \<open>2 ^ 256\<close> elements cannot be made.
\<close>

section \<open>Solidity\<close>

datatype sol_error =
    RevertReason string
  | CheckedPanic nat
  | ProofBytesTooShort nat nat
  | WrongVerifierSelector bytes bytes
  | InvalidRecoveryId u8
  | InvalidSignature address
  | GatewayReverted string

definition checked_sub :: "nat \<Rightarrow> nat \<Rightarrow> (sol_error, nat) outcome" where
  "checked_sub a b = (if b \<le> a then Ok (a - b) else Err (CheckedPanic 0x11))"

definition array_get :: "'a list \<Rightarrow> nat \<Rightarrow> (sol_error, 'a) outcome" where
  "array_get xs i = (if i < length xs then Ok (xs ! i) else Err (CheckedPanic 0x32))"

definition array_set :: "'a list \<Rightarrow> nat \<Rightarrow> 'a \<Rightarrow> (sol_error, 'a list) outcome" where
  "array_set xs i x = (if i < length xs then Ok (xs[i := x]) else Err (CheckedPanic 0x32))"

definition array_pop :: "'a list \<Rightarrow> (sol_error, 'a list) outcome" where
  "array_pop xs = (if xs = [] then Err (CheckedPanic 0x31) else Ok (butlast xs))"

section \<open>The map\<close>

record signers_map =
  sm_map :: "address \<Rightarrow> bool"
  sm_signers :: "address list"
  sm_index :: "address \<Rightarrow> nat"

definition signers_empty :: signers_map where
  "signers_empty = \<lparr>sm_map = (\<lambda>_. False), sm_signers = [], sm_index = (\<lambda>_. 0)\<rparr>"

definition map_addSigner :: "signers_map \<Rightarrow> address \<Rightarrow> (sol_error, signers_map) outcome" where
  "map_addSigner s signer =
     (if sm_map s signer then Err (RevertReason ''Signer already exists'')
      else
        let s1 = s\<lparr>sm_map := (sm_map s)(signer := True)\<rparr>;
            s2 = s1\<lparr>sm_signers := sm_signers s1 @ [signer]\<rparr>
        in and_then (checked_sub (length (sm_signers s2)) 1) (\<lambda>i.
             Ok (s2\<lparr>sm_index := (sm_index s2)(signer := i)\<rparr>)))"

definition map_removeSigner :: "signers_map \<Rightarrow> address \<Rightarrow> (sol_error, signers_map) outcome" where
  "map_removeSigner s signer =
     (if \<not> sm_map s signer then Err (RevertReason ''Signer does not exist'')
      else
        let s1 = s\<lparr>sm_map := (sm_map s)(signer := False)\<rparr>;
            indexToRemove = sm_index s1 signer;
            s2 = s1\<lparr>sm_index := (sm_index s1)(signer := 0)\<rparr>
        in and_then (checked_sub (length (sm_signers s2)) 1) (\<lambda>last_index.
             if indexToRemove = last_index
             then and_then (array_pop (sm_signers s2)) (\<lambda>xs. Ok (s2\<lparr>sm_signers := xs\<rparr>))
             else
               and_then (array_get (sm_signers s2) last_index) (\<lambda>lastSigner.
               and_then (array_set (sm_signers s2) indexToRemove lastSigner) (\<lambda>xs.
               and_then (array_pop xs) (\<lambda>ys.
                 Ok (s2\<lparr>sm_signers := ys, sm_index := (sm_index s2)(lastSigner := indexToRemove)\<rparr>))))))"

definition map_isSigner :: "signers_map \<Rightarrow> address \<Rightarrow> bool" where
  "map_isSigner s signer = sm_map s signer"

definition map_getSigners :: "signers_map \<Rightarrow> address list" where
  "map_getSigners s = sm_signers s"

definition map_getSignersLength :: "signers_map \<Rightarrow> nat" where
  "map_getSignersLength s = length (sm_signers s)"

section \<open>The invariant\<close>

text \<open>The array lists the members without repetition, and the index finds each of them in it.\<close>

definition signers_inv :: "signers_map \<Rightarrow> bool" where
  "signers_inv s \<longleftrightarrow>
     distinct (sm_signers s) \<and>
     (\<forall>a. sm_map s a \<longleftrightarrow> a \<in> set (sm_signers s)) \<and>
     (\<forall>i < length (sm_signers s). sm_index s (sm_signers s ! i) = i)"

lemma signers_invD:
  assumes "signers_inv s"
  shows "distinct (sm_signers s)" and "sm_map s a \<longleftrightarrow> a \<in> set (sm_signers s)"
    and "i < length (sm_signers s) \<Longrightarrow> sm_index s (sm_signers s ! i) = i"
  using assms by (auto simp: signers_inv_def)

lemma add_member: "sm_map s a \<Longrightarrow> map_addSigner s a = Err (RevertReason ''Signer already exists'')"
  by (simp add: map_addSigner_def)

lemma add_nonmember:
  assumes "signers_inv s" and "\<not> sm_map s a"
  shows "\<exists>t. map_addSigner s a = Ok t \<and> sm_signers t = sm_signers s @ [a] \<and> signers_inv t"
proof -
  have "a \<notin> set (sm_signers s)" using assms signers_invD(2) by blast
  then show ?thesis
    using assms by (auto simp: map_addSigner_def checked_sub_def signers_inv_def nth_append
        less_Suc_eq Let_def)
qed

lemma remove_nonmember:
  "\<not> sm_map s a \<Longrightarrow> map_removeSigner s a = Err (RevertReason ''Signer does not exist'')"
  by (simp add: map_removeSigner_def)

text \<open>A member is the last of the array, or it is followed by others up to the last.\<close>

lemma member_position:
  assumes "signers_inv s" and "sm_map s a"
  obtains ys where "sm_signers s = ys @ [a]" and "sm_index s a = length ys"
  | us vs z where "sm_signers s = us @ a # vs @ [z]" and "sm_index s a = length us"
proof -
  obtain us ws where xs: "sm_signers s = us @ a # ws"
    using assms signers_invD(2) by (meson split_list)
  then have "sm_index s a = length us"
    using signers_invD(3) [OF assms(1), of "length us"] by simp
  with xs that show ?thesis by (cases ws rule: rev_cases) auto
qed

lemma remove_last:
  assumes inv: "signers_inv s" and xs: "sm_signers s = ys @ [a]" and "sm_index s a = length ys"
  shows "\<exists>t. map_removeSigner s a = Ok t \<and> sm_signers t = ys \<and> signers_inv t"
proof -
  have "sm_index s (ys ! i) = i" if "i < length ys" for i
    using signers_invD(3) [OF inv, of i] that by (simp add: xs nth_append)
  moreover have "distinct (ys @ [a])" and "\<And>b. sm_map s b \<longleftrightarrow> b \<in> set (ys @ [a])"
    using signers_invD(1,2) [OF inv] by (simp_all add: xs)
  ultimately show ?thesis
    using assms(3) xs
    by (auto simp: map_removeSigner_def checked_sub_def array_pop_def signers_inv_def Let_def)
qed

lemma remove_inner:
  assumes inv: "signers_inv s" and xs: "sm_signers s = us @ a # vs @ [z]"
    and i: "sm_index s a = length us"
  shows "\<exists>t. map_removeSigner s a = Ok t \<and> sm_signers t = us @ z # vs \<and> signers_inv t"
proof -
  define t where "t = s\<lparr>sm_map := (sm_map s)(a := False), sm_signers := us @ z # vs,
    sm_index := (sm_index s)(a := 0, z := length us)\<rparr>"
  have d: "distinct (us @ a # vs @ [z])" and m: "\<And>b. sm_map s b \<longleftrightarrow> b \<in> set (us @ a # vs @ [z])"
    using signers_invD(1,2) [OF inv] by (simp_all add: xs)
  have "map_removeSigner s a = Ok t"
    using i m by (simp add: map_removeSigner_def checked_sub_def array_get_def array_set_def
        array_pop_def xs nth_append list_update_append butlast_append t_def Let_def)
  moreover have "sm_index t ((us @ z # vs) ! j) = j" if "j < length (us @ z # vs)" for j
  proof -
    have "sm_index s ((us @ a # vs @ [z]) ! j) = j"
      using signers_invD(3) [OF inv, of j] that by (simp add: xs)
    then show ?thesis
      using that d by (auto simp: t_def nth_append nth_Cons split: nat.splits if_splits dest: nth_mem)
  qed
  then have "signers_inv t"
    using d m by (auto simp: signers_inv_def t_def)
  ultimately show ?thesis by (auto simp: t_def)
qed

lemma remove_member:
  assumes "signers_inv s" and "sm_map s a"
  shows "\<exists>t. map_removeSigner s a = Ok t \<and> signers_inv t \<and>
    set (sm_signers t) = set (sm_signers s) - {a}"
proof (rule member_position [OF assms])
  fix ys
  assume xs: "sm_signers s = ys @ [a]" and i: "sm_index s a = length ys"
  then have "a \<notin> set ys" using signers_invD(1) [OF assms(1)] by simp
  then show ?thesis using remove_last [OF assms(1) xs i] xs by auto
next
  fix us vs z
  assume xs: "sm_signers s = us @ a # vs @ [z]" and i: "sm_index s a = length us"
  then have "a \<notin> set us" "a \<notin> set vs" "a \<noteq> z" using signers_invD(1) [OF assms(1)] by auto
  then show ?thesis using remove_inner [OF assms(1) xs i] xs by auto
qed

text \<open>The map keeps the contract of a set of members.\<close>

interpretation signers: member_set signers_empty map_addSigner map_removeSigner map_isSigner
    map_getSigners signers_inv
proof unfold_locales
  fix s a t
  assume s: "signers_inv s"
  note member = map_isSigner_def signers_invD(2)
  show "\<not> map_isSigner s a \<Longrightarrow> \<exists>t. map_addSigner s a = Ok t"
    using add_nonmember [OF s] by (auto simp: map_isSigner_def)
  show "map_isSigner s a \<Longrightarrow> \<exists>t. map_removeSigner s a = Ok t"
    using remove_member [OF s] by (auto simp: map_isSigner_def)
  show "signers_inv t \<and> \<not> map_isSigner s a \<and> (\<forall>b. map_isSigner t b \<longleftrightarrow> b = a \<or> map_isSigner s b)"
    if "map_addSigner s a = Ok t"
  proof -
    have "\<not> sm_map s a" using that by (auto simp: add_member)
    then show ?thesis using add_nonmember [OF s, of a] that s by (auto simp: member)
  qed
  show "signers_inv t \<and> map_isSigner s a \<and> (\<forall>b. map_isSigner t b \<longleftrightarrow> b \<noteq> a \<and> map_isSigner s b)"
    if "map_removeSigner s a = Ok t"
  proof -
    have "sm_map s a" using that remove_nonmember [of s a] by (cases "sm_map s a") auto
    then show ?thesis using remove_member [OF s, of a] that s by (auto simp: member)
  qed
  show "set (map_getSigners s) = Collect (map_isSigner s)"
    using s by (auto simp: map_getSigners_def member)
  show "distinct (map_getSigners s)"
    using s by (simp add: map_getSigners_def signers_invD(1))
qed (simp_all add: signers_empty_def signers_inv_def map_isSigner_def)

section \<open>The abstract set\<close>

text \<open>A transaction on the map, its effect (a revert changes nothing), and what it should do.\<close>

datatype signer_op = AddOp address | RemoveOp address

fun signers_apply :: "signer_op \<Rightarrow> signers_map \<Rightarrow> (sol_error, signers_map) outcome" where
  "signers_apply (AddOp a) s = map_addSigner s a"
| "signers_apply (RemoveOp a) s = map_removeSigner s a"

fun signers_run ::
  "signer_op list \<Rightarrow> signers_map \<Rightarrow> (sol_error, unit) outcome list \<times> signers_map" where
  "signers_run [] s = ([], s)"
| "signers_run (x # xs) s =
     (let (r, t) = (case signers_apply x s of
        Ok t \<Rightarrow> (Ok (), t) | Err e \<Rightarrow> (Err e, s) | Panic p \<Rightarrow> (Panic p, s))
      in (r # fst (signers_run xs t), snd (signers_run xs t)))"

fun set_apply :: "signer_op \<Rightarrow> address set \<Rightarrow> (sol_error, unit) outcome \<times> address set" where
  "set_apply (AddOp a) A =
     (if a \<in> A then (Err (RevertReason ''Signer already exists''), A) else (Ok (), insert a A))"
| "set_apply (RemoveOp a) A =
     (if a \<in> A then (Ok (), A - {a}) else (Err (RevertReason ''Signer does not exist''), A))"

fun set_run :: "signer_op list \<Rightarrow> address set \<Rightarrow> (sol_error, unit) outcome list \<times> address set" where
  "set_run [] A = ([], A)"
| "set_run (x # xs) A =
     (let (r, B) = set_apply x A in (r # fst (set_run xs B), snd (set_run xs B)))"

lemma signers_apply_refines:
  assumes "signers_inv s"
  shows "\<exists>r t. (case signers_apply x s of
        Ok t \<Rightarrow> (Ok (), t) | Err e \<Rightarrow> (Err e, s) | Panic p \<Rightarrow> (Panic p, s)) = (r, t) \<and>
    set_apply x (set (map_getSigners s)) = (r, set (map_getSigners t)) \<and> signers_inv t"
proof (cases x)
  case (AddOp a)
  show ?thesis
  proof (cases "map_isSigner s a")
    case True
    then show ?thesis
      using assms AddOp by (simp add: map_isSigner_def add_member signers.set_elems)
  next
    case False
    then obtain t where t: "map_addSigner s a = Ok t" using signers.add_new [OF assms] by blast
    then show ?thesis
      using AddOp False signers.add_Ok [OF assms t] signers.set_elems_add [OF assms t]
      by (simp add: signers.set_elems [OF assms])
  qed
next
  case (RemoveOp a)
  show ?thesis
  proof (cases "map_isSigner s a")
    case False
    then show ?thesis
      using assms RemoveOp by (simp add: map_isSigner_def remove_nonmember signers.set_elems)
  next
    case True
    then obtain t where t: "map_removeSigner s a = Ok t" using signers.remove_old [OF assms] by blast
    then show ?thesis
      using RemoveOp True signers.remove_Ok [OF assms t] signers.set_elems_remove [OF assms t]
      by (simp add: signers.set_elems [OF assms])
  qed
qed

lemma signers_run_refines:
  "signers_inv s \<Longrightarrow> signers_run xs s = (rs, t) \<Longrightarrow>
   set_run xs (set (map_getSigners s)) = (rs, set (map_getSigners t)) \<and> signers_inv t"
proof (induction xs arbitrary: s rs)
  case (Cons x xs)
  obtain r u where u: "(case signers_apply x s of
        Ok t \<Rightarrow> (Ok (), t) | Err e \<Rightarrow> (Err e, s) | Panic p \<Rightarrow> (Panic p, s)) = (r, u)"
      "set_apply x (set (map_getSigners s)) = (r, set (map_getSigners u))" "signers_inv u"
    using signers_apply_refines [OF Cons.prems(1)] by blast
  with Cons.prems(2) have "rs = r # fst (signers_run xs u)" "signers_run xs u = (fst (signers_run xs u), t)"
    by auto
  with Cons.IH [OF u(3), of "fst (signers_run xs u)"] u(2) show ?case by auto
qed simp

section \<open>Properties\<close>

text \<open>
  C19. The signers map implements a set. For every sequence of additions and removals from the
  empty map, each one succeeds or fails as it does on an abstract set of addresses, with the same
  message, so that no checked subtraction, index or pop ever fails; at the end the listed signers are
  that set, each once, and the map answers membership in it.
\<close>

theorem signers_map_refines_set:
  "fst (signers_run ops signers_empty) = fst (set_run ops {}) \<and>
   set (map_getSigners (snd (signers_run ops signers_empty))) = snd (set_run ops {}) \<and>
   distinct (map_getSigners (snd (signers_run ops signers_empty))) \<and>
   map_getSignersLength (snd (signers_run ops signers_empty)) = card (snd (set_run ops {})) \<and>
   Collect (map_isSigner (snd (signers_run ops signers_empty))) = snd (set_run ops {})"
proof -
  obtain rs t where run: "signers_run ops signers_empty = (rs, t)" by fastforce
  have "map_getSigners signers_empty = []" by (simp add: map_getSigners_def signers_empty_def)
  then have r: "set_run ops {} = (rs, set (map_getSigners t))" and inv: "signers_inv t"
    using signers_run_refines [OF signers.invar_empty run] by simp_all
  have "distinct (map_getSigners t)" using inv by (rule signers.distinct_elems)
  moreover have "map_getSignersLength t = length (map_getSigners t)"
    by (simp add: map_getSignersLength_def map_getSigners_def)
  ultimately show ?thesis
    using r run inv by (simp add: distinct_card signers.set_elems [symmetric])
qed

end
