(* ===== verification/Contract_Verifier.thy ===== *)
theory Contract_Verifier
  imports Contract_Signers
begin

text \<open>
  The verifier contract: \<open>contracts/src/SP1TeeVerifier.sol\<close> with \<open>contracts/src/SimpleOwnable.sol\<close>. It
  keeps the signers and accepts a proof whose bytes begin with a signature of a signer over the
  version, the verifying key and the public values; the rest goes to the gateway.

  Keccak-256, the \<open>ecrecover\<close> precompile and the gateway contract are parameters. A call that reverts
  is an \<open>Err\<close> and leaves the state as it was.
\<close>

section \<open>Ownership\<close>

datatype contract_event =
    SignerAdded address
  | SignerRemoved address
  | OwnershipTransferred address address
  | OwnershipRenounced address

record verifier =
  vf_owner :: address
  vf_signers :: signers_map

type_synonym 'a call_result = "(sol_error, 'a \<times> contract_event list) outcome"

definition onlyOwner :: "address \<Rightarrow> verifier \<Rightarrow> 'a call_result \<Rightarrow> 'a call_result" where
  "onlyOwner sender c body =
     (if sender \<noteq> vf_owner c then Err (RevertReason ''Only the owner can call this function'') else body)"

definition verifier_constructor :: "address \<Rightarrow> verifier call_result" where
  "verifier_constructor new_owner =
     (if new_owner = 0 then Err (RevertReason ''Owner cannot be the zero address'')
      else Ok (\<lparr>vf_owner = new_owner, vf_signers = signers_empty\<rparr>, [OwnershipTransferred 0 new_owner]))"

definition transferOwnership :: "address \<Rightarrow> verifier \<Rightarrow> address \<Rightarrow> verifier call_result" where
  "transferOwnership sender c newOwner =
     onlyOwner sender c
       (if newOwner = 0 then Err (RevertReason ''New owner cannot be the zero address'')
        else Ok (c\<lparr>vf_owner := newOwner\<rparr>, [OwnershipTransferred (vf_owner c) newOwner]))"

definition renounceOwnership :: "address \<Rightarrow> verifier \<Rightarrow> verifier call_result" where
  "renounceOwnership sender c =
     onlyOwner sender c (Ok (c\<lparr>vf_owner := 0\<rparr>, [OwnershipRenounced (vf_owner c)]))"

section \<open>Signers\<close>

definition addSigner :: "address \<Rightarrow> verifier \<Rightarrow> address \<Rightarrow> verifier call_result" where
  "addSigner sender c signer =
     onlyOwner sender c
       (if signer = 0 then Err (RevertReason ''Signer cannot be the zero address'')
        else and_then (map_addSigner (vf_signers c) signer) (\<lambda>m.
          Ok (c\<lparr>vf_signers := m\<rparr>, [SignerAdded signer])))"

definition removeSigner :: "address \<Rightarrow> verifier \<Rightarrow> address \<Rightarrow> verifier call_result" where
  "removeSigner sender c signer =
     onlyOwner sender c
       (and_then (map_removeSigner (vf_signers c) signer) (\<lambda>m.
          Ok (c\<lparr>vf_signers := m\<rparr>, [SignerRemoved signer])))"

definition getSigners :: "verifier \<Rightarrow> address list" where
  "getSigners c = map_getSigners (vf_signers c)"

definition isSigner :: "verifier \<Rightarrow> address \<Rightarrow> bool" where
  "isSigner c signer = map_isSigner (vf_signers c) signer"

section \<open>Verifying a proof\<close>

record chain_ext =
  sol_keccak256 :: "bytes \<Rightarrow> bytes"
  sol_ecrecover :: "bytes \<Rightarrow> u8 \<Rightarrow> bytes \<Rightarrow> bytes \<Rightarrow> address"
  sol_gateway :: "bytes \<Rightarrow> bytes \<Rightarrow> bytes \<Rightarrow> (sol_error, unit) outcome"

definition VERIFIER_HASH :: "chain_ext \<Rightarrow> bytes" where
  "VERIFIER_HASH x = sol_keccak256 x (map (\<lambda>c. of_nat (of_char c)) ''SP1TeeVerifier'')"

text \<open>A slice \<open>bs[from:to]\<close> of calldata reverts without a reason when it ends beyond the data.\<close>

definition slice :: "bytes \<Rightarrow> nat \<Rightarrow> nat \<Rightarrow> (sol_error, bytes) outcome" where
  "slice bs lo hi =
     (if lo \<le> hi \<and> hi \<le> length bs then Ok (take (hi - lo) (drop lo bs)) else Err (RevertReason []))"

text \<open>\<open>70 + version_len\<close>: an addition on \<open>uint8\<close>, checked.\<close>

definition version_end :: "u8 \<Rightarrow> (sol_error, nat) outcome" where
  "version_end version_len =
     (if 256 \<le> 70 + unat version_len then Err (CheckedPanic 0x11) else Ok (unat (70 + version_len)))"

definition message_hash :: "chain_ext \<Rightarrow> bytes \<Rightarrow> bytes \<Rightarrow> bytes \<Rightarrow> bytes" where
  "message_hash x version programVKey publicValues =
     sol_keccak256 x (sol_keccak256 x version @ programVKey @ sol_keccak256 x publicValues)"

definition verifyProof ::
  "chain_ext \<Rightarrow> verifier \<Rightarrow> bytes \<Rightarrow> bytes \<Rightarrow> bytes \<Rightarrow> (sol_error, unit) outcome" where
  "verifyProof x c programVKey publicValues proofBytes =
     (if length proofBytes < 70 then Err (ProofBytesTooShort (length proofBytes) 70)
      else
        let receivedSelector = take 4 proofBytes;
            expectedSelector = take 4 (VERIFIER_HASH x)
        in
        if receivedSelector \<noteq> expectedSelector
        then Err (WrongVerifierSelector receivedSelector expectedSelector)
        else
          let v = proofBytes ! 4 in
          and_then (slice proofBytes 5 37) (\<lambda>r.
          and_then (slice proofBytes 37 69) (\<lambda>s.
          and_then (version_end (proofBytes ! 69)) (\<lambda>end_of_version.
          and_then (slice proofBytes 70 end_of_version) (\<lambda>version.
            let hash = message_hash x version programVKey publicValues in
            if v \<noteq> 27 \<and> v \<noteq> 28 then Err (InvalidRecoveryId v)
            else
              let signer = sol_ecrecover x hash v r s in
              if signer = 0 then Err (InvalidSignature signer)
              else if \<not> isSigner c signer then Err (InvalidSignature signer)
              else
                and_then (slice proofBytes end_of_version (length proofBytes)) (\<lambda>rest.
                  sol_gateway x programVKey publicValues rest))))))"

section \<open>The layout of the proof bytes\<close>

text \<open>The version string inside the proof bytes is framed by one length byte.\<close>

definition version_frame :: "bytes \<Rightarrow> bytes" where
  "version_frame version = of_nat (length version) # version"

definition version_fits :: "bytes \<Rightarrow> bool" where
  "version_fits version \<longleftrightarrow> length version \<le> 185"

definition version_unframe :: "bytes \<Rightarrow> (bytes \<times> bytes) option" where
  "version_unframe bs =
     (case bs of
        [] \<Rightarrow> None
      | n # rest \<Rightarrow>
          if unat n \<le> 185 \<and> unat n \<le> length rest
          then Some (take (unat n) rest, drop (unat n) rest) else None)"

lemma unat_of_nat_u8: "n \<le> 255 \<Longrightarrow> unat (of_nat n :: u8) = n"
  by (simp add: unat_of_nat take_bit_nat_eq_self)

text \<open>The version string keeps the contract of a framing, as the messages on the vsock stream do.\<close>

interpretation proof_version: framing version_frame version_unframe version_fits
proof unfold_locales
  fix p rest bs :: bytes and n
  show "version_fits p \<Longrightarrow> version_unframe (version_frame p @ rest) = Some (p, rest)"
    by (simp add: version_fits_def version_frame_def version_unframe_def unat_of_nat_u8)
  show "version_fits p \<Longrightarrow> n < length (version_frame p) \<Longrightarrow> version_unframe (take n (version_frame p)) = None"
    by (cases n) (simp_all add: version_fits_def version_frame_def version_unframe_def unat_of_nat_u8)
  show "version_unframe bs = Some (p, rest) \<Longrightarrow> length rest < length bs"
    by (auto simp: version_unframe_def split: list.splits if_splits)
qed

definition proof_bytes :: "chain_ext \<Rightarrow> u8 \<Rightarrow> bytes \<Rightarrow> bytes \<Rightarrow> bytes \<Rightarrow> bytes \<Rightarrow> bytes" where
  "proof_bytes x v r s version rest = take 4 (VERIFIER_HASH x) @ v # r @ s @ version_frame version @ rest"

definition keccak_ok :: "chain_ext \<Rightarrow> bool" where
  "keccak_ok x \<longleftrightarrow> (\<forall>bs. length (sol_keccak256 x bs) = 32)"

lemma length_selector: "keccak_ok x \<Longrightarrow> length (take 4 (VERIFIER_HASH x)) = 4"
  by (simp add: keccak_ok_def VERIFIER_HASH_def)

text \<open>Bytes of the minimal length fall into the fixed fields, the length byte and the rest.\<close>

lemma fixed_fields:
  assumes "70 \<le> length bs"
  shows "\<exists>sel v r s n tail. bs = sel @ v # r @ s @ n # tail \<and> length sel = 4 \<and> length r = 32 \<and> length s = 32"
proof -
  have "bs = take 4 bs @ drop 4 bs" by simp
  also have "drop 4 bs = bs ! 4 # drop 5 bs"
    using assms Cons_nth_drop_Suc [of 4 bs] by simp
  also have "drop 5 bs = take 32 (drop 5 bs) @ take 32 (drop 37 bs) @ drop 69 bs"
    using append_take_drop_id [of 32 "drop 5 bs"] append_take_drop_id [of 32 "drop 37 bs"] by simp
  also have "drop 69 bs = bs ! 69 # drop 70 bs"
    using assms Cons_nth_drop_Suc [of 69 bs] by simp
  finally show ?thesis
    using assms
    by (intro exI [of _ "take 4 bs"] exI [of _ "bs ! 4"] exI [of _ "take 32 (drop 5 bs)"]
        exI [of _ "take 32 (drop 37 bs)"] exI [of _ "bs ! 69"] exI [of _ "drop 70 bs"]) simp
qed

lemma version_end_cases:
  "version_end n = (if 185 < unat n then Err (CheckedPanic 0x11) else Ok (70 + unat n))"
  by (simp add: version_end_def unat_word_ariths)

text \<open>\<open>verifyProof\<close> on the fields: what the index arithmetic amounts to.\<close>

lemma verifyProof_fields:
  assumes "length sel = 4" and "length r = 32" and "length s = 32"
  shows "verifyProof x c vkey pv (sel @ v # r @ s @ n # tail) =
    (if sel \<noteq> take 4 (VERIFIER_HASH x) then Err (WrongVerifierSelector sel (take 4 (VERIFIER_HASH x)))
     else if 185 < unat n then Err (CheckedPanic 0x11)
     else (case version_unframe (n # tail) of
        None \<Rightarrow> Err (RevertReason [])
      | Some (version, rest) \<Rightarrow>
          let signer = sol_ecrecover x (message_hash x version vkey pv) v r s in
          if v \<noteq> 27 \<and> v \<noteq> 28 then Err (InvalidRecoveryId v)
          else if signer = 0 \<or> \<not> isSigner c signer then Err (InvalidSignature signer)
          else sol_gateway x vkey pv rest))"
proof -
  define bs where "bs = sel @ v # r @ s @ n # tail"
  have len: "length bs = 70 + length tail" using assms by (simp add: bs_def)
  have sel: "take 4 bs = sel" and v: "bs ! 4 = v" and n: "bs ! 69 = n"
    using assms by (simp_all add: bs_def nth_append)
  have "drop 5 bs = r @ s @ n # tail" and "drop 37 bs = s @ n # tail" and d70: "drop 70 bs = tail"
    using assms by (simp_all add: bs_def drop_Cons')
  then have r: "slice bs 5 37 = Ok r" and s: "slice bs 37 69 = Ok s"
    using len assms by (simp_all add: slice_def)
  have version: "slice bs 70 (70 + unat n) = (if unat n \<le> length tail then Ok (take (unat n) tail) else Err (RevertReason []))"
    using len d70 by (simp add: slice_def)
  have "drop (70 + unat n) bs = drop (unat n) tail" using d70 by (metis add.commute drop_drop)
  then have rest: "slice bs (70 + unat n) (70 + length tail) = Ok (drop (unat n) tail)" if "unat n \<le> length tail"
    using that len by (simp add: slice_def)
  have "verifyProof x c vkey pv bs = (if sel \<noteq> take 4 (VERIFIER_HASH x)
      then Err (WrongVerifierSelector sel (take 4 (VERIFIER_HASH x)))
      else if 185 < unat n then Err (CheckedPanic 0x11)
      else if length tail < unat n then Err (RevertReason [])
      else
        let signer = sol_ecrecover x (message_hash x (take (unat n) tail) vkey pv) v r s in
        if v \<noteq> 27 \<and> v \<noteq> 28 then Err (InvalidRecoveryId v)
        else if signer = 0 \<or> \<not> isSigner c signer then Err (InvalidSignature signer)
        else sol_gateway x vkey pv (drop (unat n) tail))"
    unfolding verifyProof_def sel v n r s version_end_cases
    using len by (simp add: version rest Let_def)
  then show ?thesis by (simp add: version_unframe_def bs_def not_less)
qed

lemma verifyProof_short:
  "length pb < 70 \<Longrightarrow> verifyProof x c vkey pv pb = Err (ProofBytesTooShort (length pb) 70)"
  by (simp add: verifyProof_def)

text \<open>
  A reader of the proof bytes that takes one field after the other, and the checks on what it has read:
  the reference for the index arithmetic of \<open>verifyProof\<close>.
\<close>

record proof_fields =
  pf_selector :: bytes
  pf_v :: u8
  pf_r :: bytes
  pf_s :: bytes
  pf_version_len :: u8
  pf_tail :: bytes

definition read_field :: "nat \<Rightarrow> bytes \<Rightarrow> (bytes \<times> bytes) option" where
  "read_field n bs = (if length bs < n then None else Some (take n bs, drop n bs))"

fun read_byte :: "bytes \<Rightarrow> (u8 \<times> bytes) option" where
  "read_byte [] = None"
| "read_byte (b # bs) = Some (b, bs)"

definition read_proof :: "bytes \<Rightarrow> proof_fields option" where
  "read_proof bs =
     Option.bind (read_field 4 bs) (\<lambda>(selector, bs).
     Option.bind (read_byte bs) (\<lambda>(v, bs).
     Option.bind (read_field 32 bs) (\<lambda>(r, bs).
     Option.bind (read_field 32 bs) (\<lambda>(s, bs).
     Option.bind (read_byte bs) (\<lambda>(n, bs).
       Some \<lparr>pf_selector = selector, pf_v = v, pf_r = r, pf_s = s, pf_version_len = n, pf_tail = bs\<rparr>)))))"

definition verify_fields ::
  "chain_ext \<Rightarrow> verifier \<Rightarrow> bytes \<Rightarrow> bytes \<Rightarrow> proof_fields \<Rightarrow> (sol_error, unit) outcome" where
  "verify_fields x c vkey pv f =
     (if pf_selector f \<noteq> take 4 (VERIFIER_HASH x)
      then Err (WrongVerifierSelector (pf_selector f) (take 4 (VERIFIER_HASH x)))
      else if 185 < unat (pf_version_len f) then Err (CheckedPanic 0x11)
      else (case read_field (unat (pf_version_len f)) (pf_tail f) of
         None \<Rightarrow> Err (RevertReason [])
       | Some (version, rest) \<Rightarrow>
           if pf_v f \<noteq> 27 \<and> pf_v f \<noteq> 28 then Err (InvalidRecoveryId (pf_v f))
           else
             let signer = sol_ecrecover x (message_hash x version vkey pv) (pf_v f) (pf_r f) (pf_s f) in
             if signer = 0 \<or> \<not> isSigner c signer then Err (InvalidSignature signer)
             else sol_gateway x vkey pv rest))"

lemma read_field_length: "read_field n bs = Some (field, rest) \<Longrightarrow> length bs = n + length rest"
  by (auto simp: read_field_def split: if_splits)

lemma read_byte_length: "read_byte bs = Some (b, rest) \<Longrightarrow> length bs = Suc (length rest)"
  by (cases bs) auto

lemma read_proof_length: "read_proof bs = Some f \<Longrightarrow> length bs = 70 + length (pf_tail f)"
  by (auto simp: read_proof_def bind_eq_Some_conv dest!: read_field_length read_byte_length)

lemma read_proof_fields:
  assumes "length sel = 4" and "length r = 32" and "length s = 32"
  shows "read_proof (sel @ v # r @ s @ n # tail) =
    Some \<lparr>pf_selector = sel, pf_v = v, pf_r = r, pf_s = s, pf_version_len = n, pf_tail = tail\<rparr>"
  using assms by (simp add: read_proof_def read_field_def)

text \<open>The bytes that unframe are the framed version and what follows.\<close>

lemma version_unframe_Some:
  "version_unframe bs = Some (version, rest) \<longleftrightarrow> bs = version_frame version @ rest \<and> version_fits version"
proof
  assume "version_unframe bs = Some (version, rest)"
  then show "bs = version_frame version @ rest \<and> version_fits version"
    by (auto simp: version_unframe_def version_frame_def version_fits_def
        split: list.splits if_splits)
qed (simp add: proof_version.unframe_frame)

lemma verifyProof_Ok:
  assumes "keccak_ok x"
  shows "verifyProof x c vkey pv pb = Ok u \<longleftrightarrow>
    (\<exists>v r s version rest. pb = proof_bytes x v r s version rest \<and> length r = 32 \<and> length s = 32 \<and>
       version_fits version \<and> (v = 27 \<or> v = 28) \<and>
       (let signer = sol_ecrecover x (message_hash x version vkey pv) v r s in
          signer \<noteq> 0 \<and> isSigner c signer) \<and>
       sol_gateway x vkey pv rest = Ok u)" (is "?accepts \<longleftrightarrow> ?P")
proof
  assume acc: ?accepts
  then have "70 \<le> length pb" using verifyProof_short [of pb x c vkey pv] by (cases "length pb < 70") auto
  from fixed_fields [OF this] obtain sel v r s n tail where
    pb: "pb = sel @ v # r @ s @ n # tail" and len: "length sel = 4" "length r = 32" "length s = 32"
    by blast
  from acc obtain version rest where u: "version_unframe (n # tail) = Some (version, rest)"
    unfolding pb verifyProof_fields [OF len] by (auto split: if_splits option.splits)
  have "sel = take 4 (VERIFIER_HASH x)" and "v = 27 \<or> v = 28"
    and "let signer = sol_ecrecover x (message_hash x version vkey pv) v r s in signer \<noteq> 0 \<and> isSigner c signer"
    and "sol_gateway x vkey pv rest = Ok u"
    using acc u unfolding pb verifyProof_fields [OF len] by (auto simp: Let_def split: if_splits)
  then show ?P using u len unfolding version_unframe_Some pb proof_bytes_def by blast
next
  assume ?P
  then obtain v r s version rest where p: "pb = proof_bytes x v r s version rest" "length r = 32"
      "length s = 32" "version_fits version" "v = 27 \<or> v = 28"
      "let signer = sol_ecrecover x (message_hash x version vkey pv) v r s in signer \<noteq> 0 \<and> isSigner c signer"
      "sol_gateway x vkey pv rest = Ok u"
    by blast
  have "version_unframe (of_nat (length version) # version @ rest) = Some (version, rest)"
    using p(4) unfolding version_unframe_Some by (simp add: version_frame_def)
  moreover have "unat (of_nat (length version) :: u8) \<le> 185"
    using p(4) by (simp add: version_fits_def unat_of_nat_u8)
  ultimately show ?accepts
    using p(2-) verifyProof_fields [OF length_selector [OF assms] p(2,3),
        of x c vkey pv v "of_nat (length version)" "version @ rest"]
    by (auto simp: p(1) proof_bytes_def version_frame_def Let_def)
qed

section \<open>Transactions\<close>

datatype call = AddSigner address | RemoveSigner address | TransferOwnership address | RenounceOwnership

fun contract_call :: "address \<Rightarrow> call \<Rightarrow> verifier \<Rightarrow> verifier call_result" where
  "contract_call sender (AddSigner a) c = addSigner sender c a"
| "contract_call sender (RemoveSigner a) c = removeSigner sender c a"
| "contract_call sender (TransferOwnership a) c = transferOwnership sender c a"
| "contract_call sender RenounceOwnership c = renounceOwnership sender c"

text \<open>No transaction comes from the zero address. A call that reverts changes nothing.\<close>

inductive contract_step :: "verifier \<Rightarrow> verifier \<Rightarrow> bool" where
  accepted: "sender \<noteq> 0 \<Longrightarrow> contract_call sender cl c = Ok (d, events) \<Longrightarrow> contract_step c d"
| reverted: "sender \<noteq> 0 \<Longrightarrow> contract_call sender cl c = Err e \<Longrightarrow> contract_step c c"

definition deployed :: "verifier \<Rightarrow> bool" where
  "deployed c \<longleftrightarrow> (\<exists>new_owner events. verifier_constructor new_owner = Ok (c, events))"

definition verifier_inv :: "verifier \<Rightarrow> bool" where
  "verifier_inv c \<longleftrightarrow> signers_inv (vf_signers c) \<and> \<not> isSigner c 0"

lemmas contract_defs = onlyOwner_def addSigner_def removeSigner_def transferOwnership_def
  renounceOwnership_def

lemma contract_call_Ok:
  assumes "contract_call sender cl c = Ok (d, events)"
  shows "sender = vf_owner c \<and>
    (case cl of
       AddSigner a \<Rightarrow> a \<noteq> 0 \<and> vf_owner d = vf_owner c \<and>
         map_addSigner (vf_signers c) a = Ok (vf_signers d) \<and> events = [SignerAdded a]
     | RemoveSigner a \<Rightarrow> vf_owner d = vf_owner c \<and>
         map_removeSigner (vf_signers c) a = Ok (vf_signers d) \<and> events = [SignerRemoved a]
     | TransferOwnership a \<Rightarrow> a \<noteq> 0 \<and> d = c\<lparr>vf_owner := a\<rparr> \<and>
         events = [OwnershipTransferred (vf_owner c) a]
     | RenounceOwnership \<Rightarrow> d = c\<lparr>vf_owner := 0\<rparr> \<and> events = [OwnershipRenounced (vf_owner c)])"
  using assms by (cases cl) (auto simp: contract_defs and_then_eq_Ok split: if_splits)

lemma verifier_inv_call:
  assumes inv: "verifier_inv c" and "contract_call sender cl c = Ok (d, events)"
  shows "verifier_inv d"
proof -
  note s = inv [unfolded verifier_inv_def, THEN conjunct1]
  show ?thesis
    using inv contract_call_Ok [OF assms(2)] signers.add_Ok [OF s] signers.remove_Ok [OF s]
    by (cases cl) (auto simp: verifier_inv_def isSigner_def)
qed

lemma addSigner_effect:
  assumes inv: "verifier_inv c" and call: "contract_call sender (AddSigner a) c = Ok (d, events)"
  shows "verifier_inv d \<and> sender = vf_owner c \<and> vf_owner d = vf_owner c \<and> a \<noteq> 0 \<and>
    \<not> isSigner c a \<and> (\<forall>b. isSigner d b \<longleftrightarrow> b = a \<or> isSigner c b)"
proof -
  have "signers_inv (vf_signers c)" using inv by (simp add: verifier_inv_def)
  then show ?thesis
    using contract_call_Ok [OF call] verifier_inv_call [OF inv call]
      signers.add_Ok [of "vf_signers c" a "vf_signers d"]
    by (auto simp: isSigner_def)
qed

lemma addSigner_is_ok:
  assumes inv: "verifier_inv c"
  shows "is_ok (contract_call sender (AddSigner a) c) \<longleftrightarrow>
    sender = vf_owner c \<and> a \<noteq> 0 \<and> \<not> isSigner c a"
proof -
  have "signers_inv (vf_signers c)" using inv by (simp add: verifier_inv_def)
  from signers.add_iff [OF this, of a] show ?thesis
    by (cases "map_addSigner (vf_signers c) a") (auto simp: contract_defs isSigner_def)
qed

lemma verifier_inv_deployed: "deployed c \<Longrightarrow> verifier_inv c"
  using signers.invar_empty signers.member_empty
  by (auto simp: deployed_def verifier_constructor_def verifier_inv_def isSigner_def split: if_splits)

text \<open>The contract's storage keeps its invariant whoever calls it.\<close>

interpretation contract: transition_system deployed contract_step verifier_inv
  by unfold_locales (auto simp: verifier_inv_deployed elim!: contract_step.cases intro: verifier_inv_call)

lemma getSigners_simps:
  assumes "verifier_inv c"
  shows "set (getSigners c) = Collect (isSigner c)" and "distinct (getSigners c)"
  using assms signers.set_elems signers.distinct_elems
  by (simp_all add: verifier_inv_def getSigners_def isSigner_def [abs_def])

section \<open>A concrete chain\<close>

text \<open>
  For concrete runs: a "hash" that keeps the length and the sum, an \<open>ecrecover\<close> whose signatures
  carry the digest in \<open>r\<close> and the signer in the last byte of \<open>s\<close>, and a gateway that accepts the
  empty proof.
\<close>

definition toy_chain :: chain_ext where
  "toy_chain = \<lparr>
     sol_keccak256 = (\<lambda>bs. replicate 31 0 @ [sum_list bs + of_nat (length bs)]),
     sol_ecrecover = (\<lambda>h v r s. if v = 28 \<and> r = h then ucast (last s) else 0),
     sol_gateway = (\<lambda>vkey pv rest. if rest = [] then Ok () else Err (GatewayReverted ''bad proof''))\<rparr>"

lemma toy_keccak_ok: "keccak_ok toy_chain"
  by (simp add: keccak_ok_def toy_chain_def)

definition toy_contract :: verifier where
  "toy_contract = \<lparr>vf_owner = 1, vf_signers = \<lparr>sm_map = (\<lambda>_. False)(7 := True), sm_signers = [7],
     sm_index = (\<lambda>_. 0)(7 := 0)\<rparr>\<rparr>"

lemma toy_contract_reachable:
  "\<exists>c0. deployed c0 \<and> rtranclp contract_step c0 toy_contract"
proof -
  let ?c0 = "\<lparr>vf_owner = 1, vf_signers = signers_empty\<rparr>"
  have "deployed ?c0" unfolding deployed_def by (intro exI [of _ 1]) (simp add: verifier_constructor_def)
  moreover have "contract_call 1 (AddSigner 7) ?c0 = Ok (toy_contract, [SignerAdded 7])"
    by (simp add: contract_defs map_addSigner_def checked_sub_def signers_empty_def toy_contract_def Let_def)
  then have "contract_step ?c0 toy_contract" by (rule contract_step.accepted [rotated]) simp
  ultimately show ?thesis by blast
qed

section \<open>Properties\<close>

text \<open>
  C3. What the verifier accepts. \<open>verifyProof\<close> succeeds exactly on the bytes
  \<open>selector || v || r || s || length || version || rest\<close> with a version of at most 185 bytes (the end
  of a longer one does not fit the checked 8-bit sum), \<open>v\<close> 27 or 28, a signature that recovers a
  current signer, not the zero address, from
  \<open>keccak(keccak(version) || vkey || keccak(public values))\<close>, and a rest the gateway accepts for the
  same verifying key and public values.
\<close>

theorem verifyProof_accepts_iff:
  assumes "keccak_ok x"
  shows "verifyProof x c vkey pv pb = Ok () \<longleftrightarrow>
    (\<exists>v r s version rest signer.
       pb = take 4 (VERIFIER_HASH x) @ [v] @ r @ s @ [of_nat (length version)] @ version @ rest \<and>
       length r = 32 \<and> length s = 32 \<and> length version \<le> 185 \<and> (v = 27 \<or> v = 28) \<and>
       signer = sol_ecrecover x (sol_keccak256 x
         (sol_keccak256 x version @ vkey @ sol_keccak256 x pv)) v r s \<and>
       signer \<noteq> 0 \<and> isSigner c signer \<and> sol_gateway x vkey pv rest = Ok ())"
  using verifyProof_Ok [OF assms, of c vkey pv pb "()"]
  by (simp add: proof_bytes_def version_frame_def version_fits_def message_hash_def Let_def)

theorem verifyProof_accepts_iff_witness:
  "verifyProof toy_chain toy_contract [2] [5]
     (take 4 (VERIFIER_HASH toy_chain) @ [28] @ (replicate 31 0 @ [78]) @ (replicate 31 0 @ [7]) @
      [of_nat (length [1, 0, 0, 0 :: byte])] @ [1, 0, 0, 0] @ []) = Ok ()"
  unfolding verifyProof_accepts_iff [OF toy_keccak_ok]
  by (rule exI [of _ 28], rule exI [of _ "replicate 31 0 @ [78]"], rule exI [of _ "replicate 31 0 @ [7]"],
      rule exI [of _ "[1, 0, 0, 0]"], rule exI [of _ "[]"], rule exI [of _ 7])
    (simp add: toy_chain_def toy_contract_def isSigner_def map_isSigner_def sum_list_replicate)

text \<open>
  C22. The verifier is its reader. On all proof bytes, well-formed or not, \<open>verifyProof\<close> and its slices at
  fixed indices return what a reader returns that takes the selector, \<open>v\<close>, \<open>r\<close>, \<open>s\<close> and the length of the
  version one after the other and then checks them: the same result and, in every failing case, the
  same error. The index expressions themselves never fail where the reader has a field.
\<close>

theorem verifyProof_equals_reader:
  "verifyProof x c vkey pv pb =
    (case read_proof pb of
       None \<Rightarrow> Err (ProofBytesTooShort (length pb) 70)
     | Some f \<Rightarrow> verify_fields x c vkey pv f)"
proof (cases "length pb < 70")
  case True
  then have "read_proof pb = None" using read_proof_length [of pb] by (cases "read_proof pb") auto
  with True show ?thesis by (simp add: verifyProof_short)
next
  case False
  then obtain sel v r s n tail where pb: "pb = sel @ v # r @ s @ n # tail"
      and len: "length sel = 4" "length r = 32" "length s = 32"
    using fixed_fields [of pb] by auto
  show ?thesis
    unfolding pb read_proof_fields [OF len] verifyProof_fields [OF len]
    by (simp add: verify_fields_def version_unframe_def read_field_def Let_def not_less)
qed

text \<open>
  C20. Who can do what. In every state the contract can reach, a call succeeds exactly when its
  sender is the owner and it makes sense (an address that is not zero and not a signer is added, a
  signer is removed, ownership goes to an address that is not zero); the listed signers are exactly
  the addresses \<open>isSigner\<close> holds of, each once, and never the zero address.
\<close>

theorem contract_calls:
  assumes "deployed c0" and "rtranclp contract_step c0 c"
  shows "(is_ok (contract_call sender cl c) \<longleftrightarrow>
      sender = vf_owner c \<and>
      (case cl of AddSigner a \<Rightarrow> a \<noteq> 0 \<and> \<not> isSigner c a | RemoveSigner a \<Rightarrow> isSigner c a
        | TransferOwnership a \<Rightarrow> a \<noteq> 0 | RenounceOwnership \<Rightarrow> True)) \<and>
    set (getSigners c) = {a. isSigner c a} \<and> distinct (getSigners c) \<and> \<not> isSigner c 0"
proof -
  have inv: "verifier_inv c" using contract.reach_inv assms by blast
  then have s: "signers_inv (vf_signers c)" by (simp add: verifier_inv_def)
  have "is_ok (and_then m (\<lambda>a. Ok (f a))) = is_ok m" for m :: "(sol_error, signers_map) outcome"
      and f :: "signers_map \<Rightarrow> verifier \<times> contract_event list"
    by (cases m) simp_all
  then show ?thesis
    using getSigners_simps [OF inv] inv signers.add_iff [OF s] signers.remove_iff [OF s]
    by (cases cl) (auto simp: contract_defs isSigner_def verifier_inv_def)
qed

theorem contract_calls_witness:
  "is_ok (contract_call 1 (RemoveSigner 7) toy_contract) \<and>
   \<not> is_ok (contract_call 2 (RemoveSigner 7) toy_contract) \<and>
   \<not> is_ok (contract_call 1 (AddSigner 0) toy_contract)"
proof -
  obtain c0 where "deployed c0" "rtranclp contract_step c0 toy_contract"
    using toy_contract_reachable by blast
  note calls = contract_calls [OF this]
  show ?thesis
    unfolding calls [THEN conjunct1]
    by (simp add: toy_contract_def isSigner_def map_isSigner_def)
qed

text \<open>
  Renouncing is final: once the owner has renounced, no sequence of transactions changes the
  signers or the owner.
\<close>

lemma renounced_is_final:
  assumes "contract_call (vf_owner c) RenounceOwnership c = Ok (d, events)"
    and "rtranclp contract_step d e"
  shows "vf_owner e = 0 \<and> vf_signers e = vf_signers c \<and> e = d"
proof -
  have d: "vf_owner d = 0" "vf_signers d = vf_signers c"
    using contract_call_Ok [OF assms(1)] by simp_all
  have "e = d"
    using assms(2)
  proof (induction rule: rtranclp_induct)
    case (step f g)
    from step(2) show ?case
      using step.IH d(1) by (cases rule: contract_step.cases) (auto dest: contract_call_Ok)
  qed simp
  with d show ?thesis by simp
qed

lemma renounced_is_final_witness:
  "{e. contract_step (toy_contract\<lparr>vf_owner := 0\<rparr>) e} \<subseteq> {e. isSigner e 7}"
proof
  fix e
  assume "e \<in> {e. contract_step (toy_contract\<lparr>vf_owner := 0\<rparr>) e}"
  then have "rtranclp contract_step (toy_contract\<lparr>vf_owner := 0\<rparr>) e" by blast
  moreover have "contract_call (vf_owner toy_contract) RenounceOwnership toy_contract =
      Ok (toy_contract\<lparr>vf_owner := 0\<rparr>, [OwnershipRenounced 1])"
    by (simp add: contract_defs toy_contract_def)
  ultimately have "vf_signers e = vf_signers toy_contract" using renounced_is_final by blast
  then show "e \<in> {e. isSigner e 7}" by (simp add: isSigner_def map_isSigner_def toy_contract_def)
qed

end
