(* ===== verification/Example_Client.thy ===== *)
theory Example_Client
  imports Contract_Verifier
begin

text \<open>
  The example client: \<open>host/examples/fibonacci.rs\<close>. It has a program proved over the network with a
  second factor of the TEE, verifies the proof and, if it is given a verifier contract, sends the proof
  to the contract on a local chain.

  The SDK and the Ethereum node are parameters. A call of the SDK that panics itself is a \<open>Panic\<close>.
\<close>

section \<open>The client\<close>

record client_args =
  ca_address :: string
  ca_count :: u32
  ca_verifier :: "address option"

definition default_client_args :: client_args where
  "default_client_args =
     \<lparr>ca_address = ''https://tee.production.succinct.xyz'', ca_count = 10, ca_verifier = None\<rparr>"

record ('prover, 'stdin, 'pk, 'vk, 'proof) client_sdk =
  client_env :: "string \<Rightarrow> string option"
  network_prover :: "string \<Rightarrow> (unit, 'prover) outcome"
  stdin_of :: "u32 list \<Rightarrow> 'stdin"
  setup_program :: "'prover \<Rightarrow> bytes \<Rightarrow> (unit, 'pk \<times> 'vk) outcome"
  prove_plonk_tee_2fa :: "'prover \<Rightarrow> 'pk \<Rightarrow> 'stdin \<Rightarrow> (string, 'proof) outcome"
  verify_proof :: "'prover \<Rightarrow> 'proof \<Rightarrow> 'vk \<Rightarrow> (string, unit) outcome"
  vk_bytes32_raw :: "'vk \<Rightarrow> bytes"
  vk_bytes32 :: "'vk \<Rightarrow> string"
  proof_values :: "'proof \<Rightarrow> bytes"
  bytes_of_proof :: "'proof \<Rightarrow> bytes"
  hex_of :: "bytes \<Rightarrow> string"

record ('wallet, 'tx, 'w) client_chain =
  wallet_of :: "string \<Rightarrow> 'wallet option"
  url_parses :: "string \<Rightarrow> bool"
  get_chain_id :: "'w \<Rightarrow> string + u64"
  send_verifyProof ::
    "'w \<Rightarrow> 'wallet \<Rightarrow> string \<Rightarrow> address \<Rightarrow> bytes \<Rightarrow> bytes \<Rightarrow> bytes \<Rightarrow> (string + 'tx) \<times> 'w"
  watch_transaction :: "'w \<Rightarrow> 'tx \<Rightarrow> (string + bytes) \<times> 'w"

text \<open>What the client prints.\<close>

datatype client_line =
    VerifiedWithRust
  | VerifiedOnChain bytes
  | PrintedProof string
  | PrintedVk string
  | PrintedValues string

fun unwrap_result :: "('e, 'a) outcome \<Rightarrow> (unit, 'a) outcome" where
  "unwrap_result (Ok a) = Ok a"
| "unwrap_result (Err e) = Panic ''called Result::unwrap() on an Err value''"
| "unwrap_result (Panic p) = Panic p"

definition prove_and_verify ::
  "('prover, 'stdin, 'pk, 'vk, 'proof) client_sdk \<Rightarrow> bytes \<Rightarrow> client_args \<Rightarrow> (unit, 'vk \<times> 'proof) outcome" where
  "prove_and_verify sdk program args =
     (let stdin = stdin_of sdk [ca_count args] in
      and_then (expect ''called Result::unwrap() on an Err value'' (client_env sdk ''NETWORK_PK'')) (\<lambda>network_pk.
      and_then (network_prover sdk network_pk) (\<lambda>prover.
      and_then (setup_program sdk prover program) (\<lambda>(pk, vk).
      and_then (unwrap_result (prove_plonk_tee_2fa sdk prover pk stdin)) (\<lambda>proof.
      and_then (unwrap_result (verify_proof sdk prover proof vk)) (\<lambda>_.
        Ok (vk, proof)))))))"

definition anvil_pk :: string where
  "anvil_pk = ''0xac0974bec39a17e36ba4a6b4d238ff944bacb478cbed5efcae784d7bf4f2ff80''"

definition anvil_url :: string where
  "anvil_url = ''http://127.0.0.1:8545''"

definition anvil_provider :: "('wallet, 'tx, 'w) client_chain \<Rightarrow> (unit, 'wallet \<times> string) outcome" where
  "anvil_provider chain =
     and_then (expect ''called Result::unwrap() on an Err value'' (wallet_of chain anvil_pk)) (\<lambda>wallet.
       if url_parses chain anvil_url then Ok (wallet, anvil_url)
       else Panic ''called Result::unwrap() on an Err value'')"

definition prove_on_chain ::
  "('prover, 'stdin, 'pk, 'vk, 'proof) client_sdk \<Rightarrow> ('wallet, 'tx, 'w) client_chain \<Rightarrow> address \<Rightarrow>
   'vk \<Rightarrow> 'proof \<Rightarrow> 'w \<Rightarrow> (unit, bytes) outcome \<times> 'w" where
  "prove_on_chain sdk chain verifier vk proof w =
     (case anvil_provider chain of
        Err e \<Rightarrow> (Err e, w)
      | Panic p \<Rightarrow> (Panic p, w)
      | Ok (wallet, url) \<Rightarrow>
          (case get_chain_id chain w of
             Inl e \<Rightarrow> (Panic ''Failed to fetch chain id on default anvil ports, make sure anvil is running'', w)
           | Inr chain_id \<Rightarrow>
               (case send_verifyProof chain w wallet url verifier (vk_bytes32_raw sdk vk) (proof_values sdk proof)
                       (bytes_of_proof sdk proof) of
                  (Inl e, w') \<Rightarrow> (Panic ''called Result::unwrap() on an Err value'', w')
                | (Inr tx, w') \<Rightarrow>
                    (case watch_transaction chain w' tx of
                       (Inl e, w'') \<Rightarrow> (Panic ''called Result::unwrap() on an Err value'', w'')
                     | (Inr hash, w'') \<Rightarrow> (Ok hash, w'')))))"

text \<open>The result, what was printed until then, and the chain.\<close>

definition client_main ::
  "('prover, 'stdin, 'pk, 'vk, 'proof) client_sdk \<Rightarrow> ('wallet, 'tx, 'w) client_chain \<Rightarrow> bytes \<Rightarrow> client_args \<Rightarrow>
   'w \<Rightarrow> (unit, unit) outcome \<times> client_line list \<times> 'w" where
  "client_main sdk chain program args w =
     (case prove_and_verify sdk program args of
        Err e \<Rightarrow> (Err e, [], w)
      | Panic p \<Rightarrow> (Panic p, [], w)
      | Ok (vk, proof) \<Rightarrow>
          (case ca_verifier args of
             Some verifier \<Rightarrow>
               (case prove_on_chain sdk chain verifier vk proof w of
                  (Ok hash, w') \<Rightarrow> (Ok (), [VerifiedWithRust, VerifiedOnChain hash], w')
                | (Err e, w') \<Rightarrow> (Err e, [VerifiedWithRust], w')
                | (Panic p, w') \<Rightarrow> (Panic p, [VerifiedWithRust], w'))
           | None \<Rightarrow>
               (Ok (), [VerifiedWithRust, PrintedProof (hex_of sdk (bytes_of_proof sdk proof)),
                  PrintedVk (vk_bytes32 sdk vk), PrintedValues (hex_of sdk (proof_values sdk proof))], w)))"

section \<open>What a report stands for\<close>

text \<open>
  A node estimates a transaction before it sends it, so it refuses one that reverts in the state it has
  then. \<open>deployed_at\<close> reads the verifier contract at an address.
\<close>

definition estimates :: "chain_ext \<Rightarrow> ('wallet, 'tx, 'w) client_chain \<Rightarrow> ('w \<Rightarrow> address \<Rightarrow> verifier) \<Rightarrow> bool" where
  "estimates x chain deployed_at \<longleftrightarrow>
     (\<forall>w wallet url a vkey pv pb tx w'.
        send_verifyProof chain w wallet url a vkey pv pb = (Inr tx, w') \<longrightarrow>
        verifyProof x (deployed_at w a) vkey pv pb = Ok ())"

lemma unwrap_result_Ok [simp]: "unwrap_result r = Ok a \<longleftrightarrow> r = Ok a"
  by (cases r) simp_all

lemma prove_and_verify_Ok:
  "prove_and_verify sdk program args = Ok (vk, proof) \<longleftrightarrow>
   (\<exists>network_pk prover pk. client_env sdk ''NETWORK_PK'' = Some network_pk \<and>
      network_prover sdk network_pk = Ok prover \<and> setup_program sdk prover program = Ok (pk, vk) \<and>
      prove_plonk_tee_2fa sdk prover pk (stdin_of sdk [ca_count args]) = Ok proof \<and>
      verify_proof sdk prover proof vk = Ok ())"
  by (auto simp: prove_and_verify_def and_then_eq_Ok expect_def split: option.splits)

lemma prove_on_chain_Ok:
  assumes "prove_on_chain sdk chain verifier vk proof w = (Ok hash, w')"
  shows "\<exists>wallet url tx w1. send_verifyProof chain w wallet url verifier (vk_bytes32_raw sdk vk)
      (proof_values sdk proof) (bytes_of_proof sdk proof) = (Inr tx, w1) \<and>
    watch_transaction chain w1 tx = (Inr hash, w')"
  using assms by (auto simp: prove_on_chain_def split: outcome.splits sum.splits prod.splits)

text \<open>
  A proof that the client reports as verified has passed the verifier of the SDK; if it reports a
  transaction, the contract accepted the proof in the state in which the transaction was sent: the
  bytes hold the signature of a registered signer over these public values and this key. Nothing is
  known of the state in which the transaction is executed: the client waits for it and does not read
  whether it succeeded.
\<close>

lemma client_reports_verified:
  assumes "keccak_ok x" and "estimates x chain deployed_at"
    and "client_main sdk chain program args w = (res, printed, w')" and "printed \<noteq> []"
  shows "\<exists>network_pk prover vk cert. network_prover sdk network_pk = Ok prover \<and>
      verify_proof sdk prover cert vk = Ok () \<and>
    (\<forall>hash verifier. VerifiedOnChain hash \<in> set printed \<longrightarrow> ca_verifier args = Some verifier \<longrightarrow>
       (\<exists>v r s version rest. bytes_of_proof sdk cert = proof_bytes x v r s version rest \<and>
          isSigner (deployed_at w verifier)
            (sol_ecrecover x (message_hash x version (vk_bytes32_raw sdk vk) (proof_values sdk cert)) v r s)))"
proof -
  obtain vk cert where run: "prove_and_verify sdk program args = Ok (vk, cert)"
    using assms(3,4) by (auto simp: client_main_def split: outcome.splits)
  then obtain network_pk prover where p: "network_prover sdk network_pk = Ok prover" "verify_proof sdk prover cert vk = Ok ()"
    unfolding prove_and_verify_Ok by blast
  have "\<exists>v r s version rest. bytes_of_proof sdk cert = proof_bytes x v r s version rest \<and>
      isSigner (deployed_at w verifier)
        (sol_ecrecover x (message_hash x version (vk_bytes32_raw sdk vk) (proof_values sdk cert)) v r s)"
    if listed: "VerifiedOnChain hash \<in> set printed" and given: "ca_verifier args = Some verifier" for hash verifier
  proof -
    obtain hash' where "prove_on_chain sdk chain verifier vk cert w = (Ok hash', w')"
      using assms(3) listed given run by (auto simp: client_main_def split: outcome.splits prod.splits)
    from prove_on_chain_Ok [OF this] assms(2)
    have "verifyProof x (deployed_at w verifier) (vk_bytes32_raw sdk vk) (proof_values sdk cert)
        (bytes_of_proof sdk cert) = Ok ()"
      unfolding estimates_def by blast
    then show ?thesis unfolding verifyProof_Ok [OF assms(1)] Let_def by blast
  qed
  with p show ?thesis by blast
qed

end
