(* ===== verification/Host_Address.thy ===== *)
theory Host_Address
  imports Tee_Prelude
begin

text \<open>
  From the enclave's public key to its Ethereum address: \<open>host/src/lib.rs\<close>. The encoded point is
  \<open>k256\<close>'s and the hashing is \<open>alloy\<close>'s \<open>Address::from_raw_public_key\<close>, which panics unless it is
  given 64 bytes; both are parameters. \<open>Inl\<close> is a panic.
\<close>

record 'pt point_ops =
  is_identity :: "'pt \<Rightarrow> bool"
  is_compact :: "'pt \<Rightarrow> bool"
  is_compressed :: "'pt \<Rightarrow> bool"
  as_bytes :: "'pt \<Rightarrow> bytes"

type_synonym raw_address = "bytes \<Rightarrow> string + address"

definition ethereum_address_from_sec1_bytes ::
  "raw_address \<Rightarrow> bytes \<Rightarrow> string + address option" where
  "ethereum_address_from_sec1_bytes from_raw public_key =
     (if length public_key \<noteq> 65 then Inr None
      else if public_key ! 0 \<noteq> 0x04 then Inr None
      else (case from_raw (drop 1 public_key) of Inl p \<Rightarrow> Inl p | Inr a \<Rightarrow> Inr (Some a)))"

definition ethereum_address_from_encoded_point ::
  "'pt point_ops \<Rightarrow> raw_address \<Rightarrow> 'pt \<Rightarrow> string + address option" where
  "ethereum_address_from_encoded_point ops from_raw encoded_point =
     (if is_identity ops encoded_point \<or> is_compact ops encoded_point \<or> is_compressed ops encoded_point
      then Inr None
      else ethereum_address_from_sec1_bytes from_raw (as_bytes ops encoded_point))"

text \<open>\<open>S3_BUCKET\<close>; \<open>production\<close> is the feature of that name.\<close>

definition S3_BUCKET :: "bool \<Rightarrow> string" where
  "S3_BUCKET production =
     (if production then ''sp1-tee-attestations'' else ''sp1-tee-attestations-testing'')"

text \<open>
  \<open>init_tracing\<close>: what is logged, and whether alerts are sent. \<open>default_env\<close> is the filter of the
  environment (\<open>RUST_LOG\<close>) if there is a valid one, \<open>env\<close> the variables that are set.
\<close>

record tracing_config =
  env_filter :: string
  with_line_number :: bool
  with_file :: bool
  alert_layer :: bool

definition init_tracing :: "string option \<Rightarrow> (string \<Rightarrow> string option) \<Rightarrow> tracing_config" where
  "init_tracing default_env env = \<lparr>
     env_filter = (case default_env of
         None \<Rightarrow> ''sp1_tee_server=debug,sp1_tee_host=debug,info'' | Some f \<Rightarrow> f),
     with_line_number = True, with_file = True,
     alert_layer = (env ''DISABLE_ALERTS'' = None)\<rparr>"

text \<open>What is assumed of the two crates: the documented precondition of \<open>from_raw_public_key\<close>, and
  that a SEC1 point in none of the three short forms is \<open>[0x04 || x || y]\<close>.\<close>

definition raw_address_ok :: "raw_address \<Rightarrow> bool" where
  "raw_address_ok from_raw \<longleftrightarrow> (\<forall>xy. length xy = 64 \<longrightarrow> (\<exists>a. from_raw xy = Inr a))"

definition point_ops_ok :: "'pt point_ops \<Rightarrow> bool" where
  "point_ops_ok ops \<longleftrightarrow>
     (\<forall>p. \<not> is_identity ops p \<and> \<not> is_compact ops p \<and> \<not> is_compressed ops p \<longrightarrow>
        length (as_bytes ops p) = 65 \<and> as_bytes ops p ! 0 = 0x04)"

lemma sec1_cases:
  "raw_address_ok from_raw \<Longrightarrow>
   (length pk = 65 \<and> pk ! 0 = 0x04 \<and>
      (\<exists>a. from_raw (drop 1 pk) = Inr a \<and> ethereum_address_from_sec1_bytes from_raw pk = Inr (Some a))) \<or>
   (\<not> (length pk = 65 \<and> pk ! 0 = 0x04) \<and> ethereum_address_from_sec1_bytes from_raw pk = Inr None)"
proof -
  assume "raw_address_ok from_raw"
  then have "length pk = 65 \<Longrightarrow> \<exists>a. from_raw (drop 1 pk) = Inr a"
    by (simp add: raw_address_ok_def)
  then show ?thesis
    by (cases "length pk = 65 \<and> pk ! 0 = 0x04") (auto simp: ethereum_address_from_sec1_bytes_def)
qed

lemma sec1_no_panic:
  "raw_address_ok from_raw \<Longrightarrow> ethereum_address_from_sec1_bytes from_raw pk \<noteq> Inl p"
  using sec1_cases [of from_raw pk] by auto

lemma sec1_Some:
  "ethereum_address_from_sec1_bytes from_raw pk = Inr (Some a) \<longleftrightarrow>
   length pk = 65 \<and> pk ! 0 = 0x04 \<and> from_raw (drop 1 pk) = Inr a"
  by (auto simp: ethereum_address_from_sec1_bytes_def split: sum.splits)

text \<open>How the callers use the result: a panic, an error or the address.\<close>

lemma address_case_Ok:
  "(case x of Inl p \<Rightarrow> Panic p | Inr None \<Rightarrow> Err e | Inr (Some a) \<Rightarrow> Ok (g a)) = Ok y \<longleftrightarrow>
   (\<exists>a. x = Inr (Some a) \<and> y = g a)"
  by (cases x rule: sum.exhaust; cases "projr x") (auto split: sum.splits)

lemma point_address_some:
  "ethereum_address_from_encoded_point ops from_raw p = Inr (Some a) \<Longrightarrow>
   ethereum_address_from_sec1_bytes from_raw (as_bytes ops p) = Inr (Some a)"
  by (auto simp: ethereum_address_from_encoded_point_def split: if_splits)

text \<open>A concrete instance: points are their bytes, and the address is the sum of the key's bytes.\<close>

definition toy_raw_address :: raw_address where
  "toy_raw_address xy = (if length xy = 64 then Inr (ucast (sum_list xy)) else Inl ''raw public key must be 64 bytes'')"

definition toy_points :: "bytes point_ops" where
  "toy_points = \<lparr>is_identity = (\<lambda>p. length p = 1), is_compact = (\<lambda>p. False),
     is_compressed = (\<lambda>p. length p \<noteq> 1 \<and> \<not> (length p = 65 \<and> p ! 0 = 0x04)), as_bytes = id\<rparr>"

lemma toy_address_ok [simp]: "raw_address_ok toy_raw_address" "point_ops_ok toy_points"
  by (auto simp: raw_address_ok_def toy_raw_address_def point_ops_ok_def toy_points_def)

section \<open>Properties\<close>

text \<open>
  The conversion of a public key never panics, whatever bytes it is given: it returns an
  address exactly for the 65-byte keys that begin with 0x04, namely the address of the 64 bytes
  after the tag, and no address otherwise.
\<close>

lemma sec1_address_total:
  assumes "raw_address_ok from_raw"
  shows "\<exists>r. ethereum_address_from_sec1_bytes from_raw pk = Inr r \<and>
    (\<forall>a. r = Some a \<longleftrightarrow> length pk = 65 \<and> pk ! 0 = 0x04 \<and> from_raw (drop 1 pk) = Inr a)"
  using sec1_cases [OF assms, of pk] by auto

lemma sec1_address_total_witness:
  "ethereum_address_from_sec1_bytes toy_raw_address (4 # replicate 63 0 @ [7]) = Inr (Some 7) \<and>
   ethereum_address_from_sec1_bytes toy_raw_address [2, 1] = Inr None"
proof -
  obtain r where "ethereum_address_from_sec1_bytes toy_raw_address (4 # replicate 63 0 @ [7]) = Inr r"
    and "\<forall>a. r = Some a \<longleftrightarrow> length (4 # replicate 63 0 @ [7 :: byte]) = 65 \<and>
      (4 # replicate 63 0 @ [7 :: byte]) ! 0 = 0x04 \<and>
      toy_raw_address (drop 1 (4 # replicate 63 0 @ [7])) = Inr a"
    using sec1_address_total [OF toy_address_ok(1)] by blast
  moreover have "toy_raw_address (replicate 63 0 @ [7]) = Inr 7"
    by (simp add: toy_raw_address_def sum_list_replicate)
  ultimately have "r = Some 7" by simp
  then show ?thesis
    using \<open>ethereum_address_from_sec1_bytes toy_raw_address (4 # replicate 63 0 @ [7]) = Inr r\<close>
      sec1_address_total [OF toy_address_ok(1), of "[2, 1]"]
    by (auto simp: ethereum_address_from_sec1_bytes_def)
qed

end
