(* ===== verification/Host_Stream.thy ===== *)
theory Host_Stream
  imports Enclave_Server
begin

text \<open>
  The host's end of a connection to the enclave: \<open>host/src/server/stream.rs\<close>. It wraps the framed
  stream and sends \<open>CloseSession\<close> when it is dropped, so that the enclave leaves its loop.

  The second half puts the two ends together: \<open>enclave_output\<close> is what the enclave's connection
  handler writes when it has read a given input, and \<open>enclave_network\<close> is the network on which it
  answers. What the host observes there is proved from the sequential specification.
\<close>

record host_stream =
  inner :: "raw_stream option"

type_synonym network = "u32 \<Rightarrow> u32 \<Rightarrow> (io_error, raw_stream) outcome"

abbreviation not_initialized :: string where
  "not_initialized \<equiv> ''Stream should be initialized, this is a bug''"

definition host_stream_new ::
  "network \<Rightarrow> u32 \<Rightarrow> u16 \<Rightarrow> (comm_error, host_stream) outcome" where
  "host_stream_new net cid port =
     (case vsock_connect net cid (ucast port) of
        Ok stream \<Rightarrow> Ok \<lparr>inner = Some stream\<rparr>
      | Err e \<Rightarrow> Err e
      | Panic p \<Rightarrow> Panic p)"

definition host_send ::
  "'stdin enclave_request bincode \<Rightarrow> host_stream \<Rightarrow> 'stdin enclave_request \<Rightarrow>
   (comm_error, unit) outcome \<times> host_stream" where
  "host_send qcd hs request =
     (case inner hs of
        None \<Rightarrow> (Panic not_initialized, hs)
      | Some stream \<Rightarrow> (let (r, stream') = send qcd stream request in (r, hs\<lparr>inner := Some stream'\<rparr>)))"

definition host_recv ::
  "('pt, 'sig) enclave_response bincode \<Rightarrow> host_stream \<Rightarrow>
   (comm_error, ('pt, 'sig) enclave_response) outcome \<times> host_stream" where
  "host_recv rcd hs =
     (case inner hs of
        None \<Rightarrow> (Panic not_initialized, hs)
      | Some stream \<Rightarrow> (let (r, stream') = recv rcd stream in (r, hs\<lparr>inner := Some stream'\<rparr>)))"

text \<open>\<open>Drop\<close>: the spawned task sends \<open>CloseSession\<close> (a failure is only logged) and closes the socket.\<close>

definition host_drop :: "'stdin enclave_request bincode \<Rightarrow> host_stream \<Rightarrow> (unit, raw_stream) outcome" where
  "host_drop qcd hs =
     (case inner hs of
        None \<Rightarrow> Panic not_initialized
      | Some stream \<Rightarrow> Ok (snd (send qcd stream CloseSession)))"

text \<open>
  The stream is dropped while it sends \<open>request\<close>, its client having gone away: \<open>n\<close> bytes of the frame are
  written, \<open>CloseSession\<close> follows them.
\<close>

definition host_drop_sending ::
  "'stdin enclave_request bincode \<Rightarrow> host_stream \<Rightarrow> 'stdin enclave_request \<Rightarrow> nat \<Rightarrow>
   (unit, raw_stream) outcome" where
  "host_drop_sending qcd hs request n =
     (case inner hs of
        None \<Rightarrow> Panic not_initialized
      | Some stream \<Rightarrow>
          host_drop qcd (hs\<lparr>inner := Some (stream\<lparr>written := written stream @ take n (wire qcd request)\<rparr>)\<rparr>))"

lemma host_send_Some:
  "inner hs = Some s \<Longrightarrow>
   host_send qcd hs m = (fst (send qcd s m), hs\<lparr>inner := Some (snd (send qcd s m))\<rparr>)"
  by (simp add: host_send_def split: prod.splits)

lemma host_recv_Some:
  "inner hs = Some s \<Longrightarrow>
   host_recv rcd hs = (fst (recv rcd s), hs\<lparr>inner := Some (snd (recv rcd s))\<rparr>)"
  by (simp add: host_recv_def split: prod.splits)

text \<open>Between \<open>new\<close> and \<open>drop\<close> the stream is there: the \<open>expect\<close>s of this file never fail.\<close>

lemma host_stream_new_inner: "host_stream_new net cid port = Ok hs \<Longrightarrow> inner hs \<noteq> None"
  by (auto simp: host_stream_new_def split: outcome.splits)

lemma host_send_inner: "host_send qcd hs m = (r, hs') \<Longrightarrow> inner hs \<noteq> None \<Longrightarrow> inner hs' \<noteq> None"
  by (auto simp: host_send_Some)

lemma host_recv_inner: "host_recv rcd hs = (r, hs') \<Longrightarrow> inner hs \<noteq> None \<Longrightarrow> inner hs' \<noteq> None"
  by (auto simp: host_recv_Some)

lemma host_no_panic:
  assumes "inner hs \<noteq> None"
  shows "\<not> panics (fst (host_send qcd hs m))" and "\<not> panics (fst (host_recv rcd hs))"
    and "\<not> panics (host_drop qcd hs)"
  using assms by (auto simp: host_send_Some host_recv_Some host_drop_def send_no_panic recv_no_panic)

section \<open>The enclave at the other end\<close>

definition enclave_output ::
  "('key, 'stdin, 'vk, 'pt, 'sig) enclave_ext \<Rightarrow> bool \<Rightarrow> 'stdin enclave_request bincode \<Rightarrow>
   ('pt, 'sig) enclave_response bincode \<Rightarrow> 'key enclave_server \<Rightarrow> bytes \<Rightarrow> bytes" where
  "enclave_output ext debug qcd rcd srv input =
     (case handle_connection ext debug qcd rcd srv (fresh (\<lambda>_. input)) of
        None \<Rightarrow> []
      | Some (_, s) \<Rightarrow> written s)"

definition enclave_network ::
  "('key, 'stdin, 'vk, 'pt, 'sig) enclave_ext \<Rightarrow> bool \<Rightarrow> 'stdin enclave_request bincode \<Rightarrow>
   ('pt, 'sig) enclave_response bincode \<Rightarrow> 'key enclave_server \<Rightarrow> u32 \<Rightarrow> network" where
  "enclave_network ext debug qcd rcd srv enclave_cid = (\<lambda>cid port.
     if cid = enclave_cid \<and> port = ucast ENCLAVE_PORT
     then Ok (fresh (enclave_output ext debug qcd rcd srv))
     else Err ConnectionRefused)"

text \<open>While the host keeps the connection open, the enclave has written the answers so far.\<close>

lemma enclave_output_open:
  assumes "bincode_ok qcd" and "\<forall>m \<in> set ms. encodable qcd m" and "CloseSession \<notin> set ms"
    and "\<forall>r \<in> set (answers ext debug srv ms). encodable rcd r"
  shows "enclave_output ext debug qcd rcd srv (wires qcd ms) = wires rcd (answers ext debug srv ms)"
proof -
  let ?s0 = "fresh (\<lambda>_. wires qcd ms)"
  define s1 where "s1 = ?s0\<lparr>consumed := consumed ?s0 + length (wires qcd ms),
    written := written ?s0 @ wires rcd (answers ext debug srv ms)\<rparr>"
  have "handle_connection ext debug qcd rcd srv ?s0 = handle_connection ext debug qcd rcd srv s1"
    unfolding s1_def using assms
    by (intro handle_connection_run [where rest = "[]"]) (auto simp: fresh_def scripted_def incoming_def)
  moreover have "incoming s1 = []" by (simp add: s1_def incoming_def fresh_def)
  then have "recv qcd s1 = (Err (Io UnexpectedEof), s1)"
    by (simp add: recv_unframe unframe_def)
  then have "handle_connection ext debug qcd rcd srv s1 =
      Some (Panic ''called Result::unwrap() on an Err value (recv)'', s1)"
    by (subst handle_connection.simps) simp
  ultimately show ?thesis by (simp add: enclave_output_def s1_def fresh_def)
qed

text \<open>
  A host stream in conversation with the enclave: what was asked so far, and what is still unread of
  the answers.
\<close>

definition talking ::
  "('key, 'stdin, 'vk, 'pt, 'sig) enclave_ext \<Rightarrow> bool \<Rightarrow> 'stdin enclave_request bincode \<Rightarrow>
   ('pt, 'sig) enclave_response bincode \<Rightarrow> 'key enclave_server \<Rightarrow> host_stream \<Rightarrow>
   'stdin enclave_request list \<Rightarrow> ('pt, 'sig) enclave_response list \<Rightarrow> bool" where
  "talking ext debug qcd rcd srv hs asked unread \<longleftrightarrow>
     (\<exists>s read. inner hs = Some s \<and> room s = None \<and> written s = wires qcd asked \<and>
        peer s = enclave_output ext debug qcd rcd srv \<and>
        (\<forall>m \<in> set asked. encodable qcd m) \<and> CloseSession \<notin> set asked \<and>
        (\<forall>r \<in> set (answers ext debug srv asked). encodable rcd r) \<and>
        answers ext debug srv asked = read @ unread \<and> consumed s = length (wires rcd read))"

lemma talking_new:
  assumes "host_stream_new (enclave_network ext debug qcd rcd srv cid) cid ENCLAVE_PORT = Ok hs"
  shows "talking ext debug qcd rcd srv hs [] []"
  using assms
  by (auto simp: host_stream_new_def vsock_connect_def enclave_network_def talking_def fresh_def)

lemma host_stream_new_enclave:
  "\<exists>hs. host_stream_new (enclave_network ext debug qcd rcd srv cid) cid ENCLAVE_PORT = Ok hs"
  by (simp add: host_stream_new_def vsock_connect_def enclave_network_def)

lemma talking_send:
  assumes "talking ext debug qcd rcd srv hs asked unread" and "bincode_ok qcd"
    and "encodable qcd m" and "m \<noteq> CloseSession"
    and "\<forall>r \<in> set (replies_of ext debug srv m). encodable rcd r"
  shows "\<exists>hs'. host_send qcd hs m = (Ok (), hs') \<and>
    talking ext debug qcd rcd srv hs' (asked @ [m]) (unread @ replies_of ext debug srv m)"
proof -
  obtain s read where s: "inner hs = Some s" "room s = None" "written s = wires qcd asked"
      "peer s = enclave_output ext debug qcd rcd srv" "\<forall>m \<in> set asked. encodable qcd m"
      "CloseSession \<notin> set asked" "\<forall>r \<in> set (answers ext debug srv asked). encodable rcd r"
      "answers ext debug srv asked = read @ unread" "consumed s = length (wires rcd read)"
    using assms(1) by (auto simp: talking_def)
  let ?s' = "s\<lparr>written := written s @ wire qcd m\<rparr>"
  have "host_send qcd hs m = (Ok (), hs\<lparr>inner := Some ?s'\<rparr>)"
    using s(1,2) assms(3) by (simp add: host_send_Some send_sound)
  moreover have "talking ext debug qcd rcd srv (hs\<lparr>inner := Some ?s'\<rparr>) (asked @ [m])
      (unread @ replies_of ext debug srv m)"
    unfolding talking_def using s assms by (intro exI [of _ ?s'] exI [of _ read]) auto
  ultimately show ?thesis by blast
qed

lemma talking_recv:
  assumes "talking ext debug qcd rcd srv hs asked (r # unread)" and "bincode_ok qcd" "bincode_ok rcd"
  shows "\<exists>hs'. host_recv rcd hs = (Ok r, hs') \<and> talking ext debug qcd rcd srv hs' asked unread"
proof -
  obtain s read where s: "inner hs = Some s" "room s = None" "written s = wires qcd asked"
      "peer s = enclave_output ext debug qcd rcd srv" "\<forall>m \<in> set asked. encodable qcd m"
      "CloseSession \<notin> set asked" "\<forall>r \<in> set (answers ext debug srv asked). encodable rcd r"
      "answers ext debug srv asked = read @ r # unread" "consumed s = length (wires rcd read)"
    using assms(1) by (auto simp: talking_def)
  have "incoming s = wire rcd r @ wires rcd unread"
    using s enclave_output_open [OF assms(2) s(5,6,7)] by (simp add: incoming_def)
  moreover have "encodable rcd r" using s(7,8) by simp
  ultimately have "recv rcd s = (Ok r, s\<lparr>consumed := consumed s + length (wire rcd r)\<rparr>)"
    by (intro recv_wire [OF assms(3)])
  then have "host_recv rcd hs = (Ok r, hs\<lparr>inner := Some (s\<lparr>consumed := consumed s + length (wire rcd r)\<rparr>)\<rparr>)"
    using s(1) by (simp add: host_recv_Some)
  moreover have "talking ext debug qcd rcd srv
      (hs\<lparr>inner := Some (s\<lparr>consumed := consumed s + length (wire rcd r)\<rparr>)\<rparr>) asked unread"
    unfolding talking_def using s
    by (intro exI [of _ "s\<lparr>consumed := consumed s + length (wire rcd r)\<rparr>"] exI [of _ "read @ [r]"]) auto
  ultimately show ?thesis by blast
qed

lemma talking_drop:
  assumes "talking ext debug qcd rcd srv hs asked unread" and "encodable qcd CloseSession"
  shows "\<exists>s. host_drop qcd hs = Ok s \<and> written s = wires qcd (asked @ [CloseSession])"
proof -
  obtain s where "inner hs = Some s" "room s = None" "written s = wires qcd asked"
    using assms(1) by (auto simp: talking_def)
  then show ?thesis using assms(2) by (auto simp: host_drop_def send_sound)
qed

lemma dropped_sending:
  assumes "host_stream_new (enclave_network ext debug qcd rcd srv cid) cid ENCLAVE_PORT = Ok hs"
    and "encodable qcd CloseSession" and "host_drop_sending qcd hs m n = Ok s"
  shows "written s = take n (wire qcd m) @ wire qcd CloseSession"
proof -
  obtain s0 where "inner hs = Some s0" "room s0 = None" "written s0 = []"
    using talking_new [OF assms(1)] by (auto simp: talking_def)
  then show ?thesis using assms(2,3) by (auto simp: host_drop_sending_def host_drop_def send_sound)
qed

text \<open>What a handler does with its stream between \<open>new\<close> and \<open>drop\<close>: sends and receives, in any order.\<close>

datatype 'stdin stream_use = Sending "'stdin enclave_request" | ReceivingResponse

fun host_use ::
  "'stdin enclave_request bincode \<Rightarrow> ('pt, 'sig) enclave_response bincode \<Rightarrow> host_stream \<Rightarrow>
   'stdin stream_use list \<Rightarrow>
   (comm_error, ('pt, 'sig) enclave_response option) outcome list \<times> host_stream" where
  "host_use qcd rcd hs [] = ([], hs)"
| "host_use qcd rcd hs (Sending m # us) =
     (let (r, hs1) = host_send qcd hs m; (rs, hs2) = host_use qcd rcd hs1 us
      in (and_then r (\<lambda>_. Ok None) # rs, hs2))"
| "host_use qcd rcd hs (ReceivingResponse # us) =
     (let (r, hs1) = host_recv rcd hs; (rs, hs2) = host_use qcd rcd hs1 us
      in (and_then r (\<lambda>x. Ok (Some x)) # rs, hs2))"

lemma host_use_progress:
  assumes "inner hs = Some s" and "host_use qcd rcd hs us = (rs, hs')"
  shows "\<exists>s'. inner hs' = Some s' \<and> s \<le> s' \<and> length rs = length us \<and> (\<forall>r \<in> set rs. \<not> panics r)"
  using assms
proof (induction us arbitrary: hs s rs)
  case (Cons u us)
  show ?case
  proof (cases u)
    case (Sending m)
    with Cons.prems obtain ts where ts: "host_use qcd rcd (hs\<lparr>inner := Some (snd (send qcd s m))\<rparr>) us = (ts, hs')"
        and rs: "rs = and_then (fst (send qcd s m)) (\<lambda>_. Ok None) # ts"
      by (auto simp: host_send_Some Let_def split: prod.splits)
    with Cons.IH [OF _ ts] show ?thesis
      using send_progress [of s qcd m] send_no_panic [of qcd s m]
      by (cases "fst (send qcd s m)") (auto intro: order.trans)
  next
    case ReceivingResponse
    with Cons.prems obtain ts where ts: "host_use qcd rcd (hs\<lparr>inner := Some (snd (recv rcd s))\<rparr>) us = (ts, hs')"
        and rs: "rs = and_then (fst (recv rcd s)) (\<lambda>x. Ok (Some x)) # ts"
      by (auto simp: host_recv_Some Let_def split: prod.splits)
    with Cons.IH [OF _ ts] show ?thesis
      using recv_progress [of s rcd] recv_no_panic [of rcd s]
      by (cases "fst (recv rcd s)") (auto intro: order.trans)
  qed
qed auto

text \<open>
  C31. The stream is there for its whole life. Whatever the network, the peer and the codecs do, a stream
  that \<open>new\<close> returned holds its socket through any sequence of sends and receives, failing ones
  included: none of them and not the drop at the end hits an \<open>expect\<close>, each moves the same socket
  forward, and on a link that still works the last thing written is \<open>CloseSession\<close>.
\<close>

theorem host_stream_typestate:
  assumes "host_stream_new net cid port = Ok hs" and "host_use qcd rcd hs us = (rs, hs')"
  shows "length rs = length us \<and> filter panics rs = [] \<and>
    (\<exists>s s' t. net cid (ucast port) = Ok s \<and> inner hs' = Some s' \<and> host_drop qcd hs' = Ok t \<and>
       s \<le> s' \<and> s' \<le> t \<and>
       (fst (send qcd s' CloseSession) = Ok () \<longrightarrow> written t = written s' @ wire qcd CloseSession))"
proof -
  obtain s where s: "net cid (ucast port) = Ok s" "inner hs = Some s"
    using assms(1)
    by (auto simp: host_stream_new_def vsock_connect_def split: outcome.splits elim: map_err.elims)
  obtain s' where s': "inner hs' = Some s'" "s \<le> s'" "length rs = length us" "\<forall>r \<in> set rs. \<not> panics r"
    using host_use_progress [OF s(2) assms(2)] by blast
  let ?t = "snd (send qcd s' CloseSession)"
  have drop: "host_drop qcd hs' = Ok ?t" using s'(1) by (simp add: host_drop_def)
  have "s' \<le> ?t" by (rule send_progress)
  moreover have "fst (send qcd s' CloseSession) = Ok () \<Longrightarrow> written ?t = written s' @ wire qcd CloseSession"
    using send_ok_written [of qcd s' CloseSession "()" ?t] by (simp add: prod_eq_iff)
  ultimately show ?thesis using s s' drop by (auto simp: filter_empty_conv)
qed

theorem host_stream_typestate_witness:
  "filter panics (fst (host_use toy_request_codec toy_response_codec
     \<lparr>inner = Some ((fresh (\<lambda>_. [0, 0]))\<lparr>room := Some 3\<rparr>)\<rparr>
     [Sending GetPublicKey, ReceivingResponse, Sending AttestSigningKey])) = []"
proof -
  let ?net = "\<lambda>cid port. Ok ((fresh (\<lambda>_. [0, 0]))\<lparr>room := Some 3\<rparr>) :: (io_error, raw_stream) outcome"
  have "host_stream_new ?net 10 ENCLAVE_PORT = Ok \<lparr>inner = Some ((fresh (\<lambda>_. [0, 0]))\<lparr>room := Some 3\<rparr>)\<rparr>"
    by (simp add: host_stream_new_def vsock_connect_def)
  from host_stream_typestate [OF this surjective_pairing, where qcd = toy_request_codec
      and rcd = toy_response_codec and us = "[Sending GetPublicKey, ReceivingResponse, Sending AttestSigningKey]"]
  show ?thesis by blast
qed

text \<open>
  C40. The Ack of a debug build is lost. Asked to print, an enclave built with \<open>debug-mode\<close> answers
  nothing, where a normal build answers \<open>Ack\<close>: a host that reads the answer gets the end of the
  stream from the one and \<open>Ack\<close> from the other.
\<close>

theorem debug_print_not_acknowledged:
  assumes "bincode_ok qcd" and "bincode_ok rcd" and "encodable qcd (Print msg)"
    and "encodable rcd Ack"
    and "host_send qcd \<lparr>inner = Some (fresh (enclave_output ext debug qcd rcd srv))\<rparr> (Print msg) = (Ok (), hs)"
  shows "fst (host_recv rcd hs) = (if debug then Err (Io UnexpectedEof) else Ok Ack)"
proof -
  let ?hs0 = "\<lparr>inner = Some (fresh (enclave_output ext debug qcd rcd srv))\<rparr>"
  have t: "talking ext debug qcd rcd srv ?hs0 [] []" by (simp add: talking_def fresh_def)
  obtain hs' where "host_send qcd ?hs0 (Print msg) = (Ok (), hs')"
    and t': "talking ext debug qcd rcd srv hs' [Print msg] (if debug then [] else [Ack])"
    using talking_send [OF t assms(1,3)] assms(4) by (cases debug) auto
  then have hs: "hs' = hs" using assms(5) by simp
  show ?thesis
  proof (cases debug)
    case False
    with t' hs show ?thesis using talking_recv [of ext debug qcd rcd srv hs "[Print msg]" Ack "[]"] assms(1,2) by auto
  next
    case True
    with t' hs obtain s where "inner hs = Some s" and "written s = wires qcd [Print msg]"
      and "peer s = enclave_output ext debug qcd rcd srv"
      by (auto simp: talking_def)
    moreover from this have "incoming s = []"
      using enclave_output_open [OF assms(1), of "[Print msg]" ext debug srv rcd] assms(3) True
      by (simp add: incoming_def)
    ultimately show ?thesis using True by (simp add: host_recv_Some recv_unframe unframe_def)
  qed
qed

theorem debug_print_not_acknowledged_witness:
  "\<exists>hs. fst (host_recv toy_response_codec hs) = (Err (Io UnexpectedEof)) \<and>
     host_send toy_request_codec \<lparr>inner = Some (fresh
       (enclave_output toy_ext True toy_request_codec toy_response_codec toy_server))\<rparr> (Print []) = (Ok (), hs)"
proof -
  have enc: "encodable toy_request_codec (Print [])" "encodable toy_response_codec Ack"
    by (simp_all add: wire_eval toy_request_codec_def toy_response_codec_def)
  obtain hs where "host_send toy_request_codec \<lparr>inner = Some (fresh
       (enclave_output toy_ext True toy_request_codec toy_response_codec toy_server))\<rparr> (Print []) = (Ok (), hs)"
    using enc(1) by (simp add: host_send_Some send_sound fresh_def)
  with debug_print_not_acknowledged [OF toy_request_codec_ok toy_response_codec_ok enc this]
  show ?thesis by auto
qed



end
