(* ===== verification/Attestations.thy ===== *)
theory Attestations
  imports Host_Address Host_Stream
begin

text \<open>
  Attestations: \<open>host/src/attestations.rs\<close>. The host saves the enclave's attestation document under
  the address of its signing key, lists the saved documents, and verifies the one of a signer
  against a PCR0 value, a version and the address itself.

  The object store, the validation of a COSE document against the Nitro root of trust, the hex codec
  and the two renderings of an address belong to other crates and are parameters
  (\<open>attestation_ext\<close>); \<open>'s\<close> is the state of the store. \<open>production\<close> is the feature that selects the
  bucket.
\<close>

section \<open>What the code calls\<close>

record attestation_doc =
  doc_pcrs :: "nat \<Rightarrow> bytes option"
  doc_user_data :: "bytes option"
  doc_public_key :: "bytes option"

record 's attestation_ext =
  s3_list :: "'s \<Rightarrow> string \<Rightarrow> string + string option list option"
  s3_get :: "'s \<Rightarrow> string \<Rightarrow> string \<Rightarrow> string + (string + bytes)"
  s3_put :: "'s \<Rightarrow> string \<Rightarrow> string \<Rightarrow> bytes \<Rightarrow> (string + unit) \<times> 's"
  parse_address :: "string \<Rightarrow> address option"
  show_address :: "address \<Rightarrow> string"
  validate_doc :: "bytes \<Rightarrow> string + attestation_doc"
  hex_encode :: "bytes \<Rightarrow> string"
  hex_decode :: "string \<Rightarrow> string + bytes"
  addr_of_raw :: raw_address

text \<open>
  How the two clients of the store are made: the settings come from the environment, the region is
  fixed, and the one that only reads signs no requests. What a client does is \<open>attestation_ext\<close>.
\<close>

record s3_client_config =
  s3_environment :: "string \<Rightarrow> string option"
  s3_region :: string
  s3_credentials :: bool

definition s3_client_write :: "(string \<Rightarrow> string option) \<Rightarrow> s3_client_config" where
  "s3_client_write env = \<lparr>s3_environment = env, s3_region = ''us-east-1'', s3_credentials = True\<rparr>"

definition s3_client_read_only :: "(string \<Rightarrow> string option) \<Rightarrow> s3_client_config" where
  "s3_client_read_only env = (s3_client_write env)\<lparr>s3_credentials := False\<rparr>"

section \<open>Errors\<close>

datatype save_attestation_error =
  VsockError comm_error | S3PutObjectError string | BadPublicKey | UnexpectedMessage string

datatype get_attestation_error =
  ListAttestationsError string | S3GetObjectError string | ParseAddressError string
  | ByteStreamError string

datatype attestation_verification_error =
  VerificationError string | Pcr0VerificationError string string
  | GetAttestationError get_attestation_error | MissingRequiredField string
  | AddressMismatch address address | VersionMismatch string string

fun show_get_attestation_error :: "get_attestation_error \<Rightarrow> string" where
  "show_get_attestation_error (ListAttestationsError e) = ''Failed to list attestations: '' @ e"
| "show_get_attestation_error (S3GetObjectError e) = ''Failed to get object: '' @ e"
| "show_get_attestation_error (ParseAddressError e) = ''Failed to parse key as address: '' @ e"
| "show_get_attestation_error (ByteStreamError e) = ''Failed to recieve bytestream: '' @ e"

section \<open>Saving an attestation\<close>

record save_attestation_args =
  sa_cid :: u32
  sa_port :: u16
  sa_bucket :: string

definition default_save_attestation_args :: "bool \<Rightarrow> save_attestation_args" where
  "default_save_attestation_args production =
     \<lparr>sa_cid = 10, sa_port = ENCLAVE_PORT, sa_bucket = S3_BUCKET production\<rparr>"

text \<open>The last part of \<open>save_attestation\<close>: from the two answers to the object in the bucket.\<close>

definition store_attestation ::
  "'s attestation_ext \<Rightarrow> 'pt point_ops \<Rightarrow> 's \<Rightarrow> string \<Rightarrow> bytes \<Rightarrow> 'pt \<Rightarrow>
   (save_attestation_error, unit) outcome \<times> 's" where
  "store_attestation aext ops store bucket attestation public_key =
     (case ethereum_address_from_encoded_point ops (addr_of_raw aext) public_key of
        Inl p \<Rightarrow> (Panic p, store)
      | Inr None \<Rightarrow> (Err BadPublicKey, store)
      | Inr (Some key) \<Rightarrow>
          (case s3_put aext store bucket (show_address aext key) attestation of
             (Inl e, store') \<Rightarrow> (Err (S3PutObjectError e), store')
           | (Inr _, store') \<Rightarrow> (Ok (), store')))"

text \<open>Both requests are sent before either answer is read, so the answers come in that order.\<close>

definition receive_attestation ::
  "('pt, 'sig) enclave_response bincode \<Rightarrow> host_stream \<Rightarrow>
   (save_attestation_error, bytes \<times> 'pt) outcome \<times> host_stream" where
  "receive_attestation rcd hs =
     (case host_recv rcd hs of
        (Ok (SigningKeyAttestation attestation), hs1) \<Rightarrow>
          (case host_recv rcd hs1 of
             (Ok (PublicKey public_key), hs2) \<Rightarrow> (Ok (attestation, public_key), hs2)
           | (Ok msg, hs2) \<Rightarrow> (Err (UnexpectedMessage (response_type_of msg)), hs2)
           | (Err e, hs2) \<Rightarrow> (Err (VsockError e), hs2)
           | (Panic p, hs2) \<Rightarrow> (Panic p, hs2))
      | (Ok msg, hs1) \<Rightarrow> (Err (UnexpectedMessage (response_type_of msg)), hs1)
      | (Err e, hs1) \<Rightarrow> (Err (VsockError e), hs1)
      | (Panic p, hs1) \<Rightarrow> (Panic p, hs1))"

definition save_attestation ::
  "'s attestation_ext \<Rightarrow> 'pt point_ops \<Rightarrow> 'stdin enclave_request bincode \<Rightarrow>
   ('pt, 'sig) enclave_response bincode \<Rightarrow> network \<Rightarrow> save_attestation_args \<Rightarrow> 's \<Rightarrow>
   (save_attestation_error, unit) outcome \<times> 's" where
  "save_attestation aext ops qcd rcd net args store =
     (case host_stream_new net (sa_cid args) (sa_port args) of
        Err e \<Rightarrow> (Err (VsockError e), store)
      | Panic p \<Rightarrow> (Panic p, store)
      | Ok hs \<Rightarrow>
          (case host_send qcd hs AttestSigningKey of
             (Err e, _) \<Rightarrow> (Err (VsockError e), store)
           | (Panic p, _) \<Rightarrow> (Panic p, store)
           | (Ok _, hs1) \<Rightarrow>
               (case host_send qcd hs1 GetPublicKey of
                  (Err e, _) \<Rightarrow> (Err (VsockError e), store)
                | (Panic p, _) \<Rightarrow> (Panic p, store)
                | (Ok _, hs2) \<Rightarrow>
                    (case receive_attestation rcd hs2 of
                       (Err e, _) \<Rightarrow> (Err e, store)
                     | (Panic p, _) \<Rightarrow> (Panic p, store)
                     | (Ok (attestation, public_key), _) \<Rightarrow>
                         store_attestation aext ops store (sa_bucket args) attestation public_key))))"

section \<open>Listing the attestations\<close>

record raw_attestation =
  ra_address :: address
  ra_attestation :: bytes

text \<open>The body of the loop, and the loop, which the first error or panic leaves.\<close>

definition fetch_object ::
  "'s attestation_ext \<Rightarrow> bool \<Rightarrow> 's \<Rightarrow> string option \<Rightarrow> (get_attestation_error, raw_attestation) outcome" where
  "fetch_object aext production store k =
     and_then (expect ''No key found in attestations'' k) (\<lambda>key.
     and_then (expect ''Failed to parse key as address'' (parse_address aext key)) (\<lambda>key_as_address.
       (case s3_get aext store (S3_BUCKET production) key of
          Inl e \<Rightarrow> Err (S3GetObjectError e)
        | Inr (Inl e) \<Rightarrow> Err (ByteStreamError e)
        | Inr (Inr bs) \<Rightarrow> Ok \<lparr>ra_address = key_as_address, ra_attestation = bs\<rparr>)))"

fun fetch_attestations ::
  "'s attestation_ext \<Rightarrow> bool \<Rightarrow> 's \<Rightarrow> string option list \<Rightarrow>
   (get_attestation_error, raw_attestation list) outcome" where
  "fetch_attestations aext production store [] = Ok []"
| "fetch_attestations aext production store (k # ks) =
     and_then (fetch_object aext production store k) (\<lambda>r.
     and_then (fetch_attestations aext production store ks) (\<lambda>rs. Ok (r # rs)))"

definition get_raw_attestations ::
  "'s attestation_ext \<Rightarrow> bool \<Rightarrow> 's \<Rightarrow> (get_attestation_error, raw_attestation list) outcome" where
  "get_raw_attestations aext production store =
     (case s3_list aext store (S3_BUCKET production) of
        Inl e \<Rightarrow> Err (ListAttestationsError e)
      | Inr contents \<Rightarrow>
          and_then (expect ''No contents found in attestations'' contents)
            (fetch_attestations aext production store))"

section \<open>Verifying the attestation of a signer\<close>

definition verify_attestation ::
  "'s attestation_ext \<Rightarrow> bytes \<Rightarrow> string + attestation_doc" where
  "verify_attestation aext attestation = validate_doc aext attestation"

text \<open>The checks on the parsed document, in the order of the code.\<close>

definition check_document ::
  "'s attestation_ext \<Rightarrow> address \<Rightarrow> u32 \<Rightarrow> string \<Rightarrow> attestation_doc \<Rightarrow>
   (attestation_verification_error, unit) outcome" where
  "check_document aext signer version pcr0 doc =
     and_then (expect ''no entry found for key'' (doc_pcrs doc 0)) (\<lambda>p0.
       let doc_pcr0 = hex_encode aext p0 in
       if doc_pcr0 \<noteq> erase_0x pcr0 then Err (Pcr0VerificationError pcr0 doc_pcr0)
       else
         and_then (ok_or (MissingRequiredField ''user_data'') (doc_user_data doc)) (\<lambda>ud.
           if ud \<noteq> to_le_bytes version
           then and_then (expect ''called Result::unwrap() on an Err value (FromUtf8Error)'' (from_utf8 ud))
             (\<lambda>found. Err (VersionMismatch (show_nat (unat version)) found))
           else
             and_then
               (case doc_public_key doc of
                  None \<Rightarrow> Ok None
                | Some b \<Rightarrow>
                    (case ethereum_address_from_sec1_bytes (addr_of_raw aext) b of
                       Inl p \<Rightarrow> Panic p | Inr a \<Rightarrow> Ok a))
               (\<lambda>derived. and_then (ok_or (MissingRequiredField ''public_key'') derived)
                  (\<lambda>derived_address.
                     if derived_address \<noteq> signer then Err (AddressMismatch signer derived_address)
                     else Ok ()))))"

definition verify_attestation_for_signer ::
  "'s attestation_ext \<Rightarrow> bool \<Rightarrow> 's \<Rightarrow> address \<Rightarrow> u32 \<Rightarrow> string \<Rightarrow>
   (attestation_verification_error, unit) outcome" where
  "verify_attestation_for_signer aext production store signer version pcr0 =
     (case s3_get aext store (S3_BUCKET production) (show_address aext signer) of
        Inl e \<Rightarrow> Err (GetAttestationError (S3GetObjectError e))
      | Inr (Inl e) \<Rightarrow> Err (GetAttestationError (ByteStreamError e))
      | Inr (Inr bs) \<Rightarrow>
          (case verify_attestation aext bs of
             Inl e \<Rightarrow> Err (VerificationError e)
           | Inr doc \<Rightarrow> check_document aext signer version pcr0 doc))"

section \<open>What is assumed of the services\<close>

text \<open>
  A successful put is read back (S3's read-after-write), and a document the security module issues
  validates to one that carries the user data and the public key it was asked to attest, with the
  measurement \<open>p0\<close> of the enclave's image in PCR0.
\<close>

definition s3_ok :: "'s attestation_ext \<Rightarrow> bool" where
  "s3_ok aext \<longleftrightarrow>
     (\<forall>st b k v st'. s3_put aext st b k v = (Inr (), st') \<longrightarrow> s3_get aext st' b k = Inr (Inr v))"

definition nsm_attests ::
  "('key, 'stdin, 'vk, 'pt, 'sig) enclave_ext \<Rightarrow> 's attestation_ext \<Rightarrow> bytes \<Rightarrow> bool" where
  "nsm_attests ext aext p0 \<longleftrightarrow>
     (\<forall>fd ud pk d. nsm_process_request ext fd (NsmAttestation (Some ud) None (Some pk)) =
        Inr (NsmDocument d) \<longrightarrow>
        (\<exists>doc. validate_doc aext d = Inr doc \<and> doc_pcrs doc 0 = Some p0 \<and>
           doc_user_data doc = Some ud \<and> doc_public_key doc = Some pk))"

section \<open>Lemmas\<close>

lemma check_document_Ok:
  "check_document aext signer version pcr0 doc = Ok u \<longleftrightarrow>
   (\<exists>p0 pk. doc_pcrs doc 0 = Some p0 \<and> hex_encode aext p0 = erase_0x pcr0 \<and>
      doc_user_data doc = Some (to_le_bytes version) \<and> doc_public_key doc = Some pk \<and>
      length pk = 65 \<and> pk ! 0 = 0x04 \<and> addr_of_raw aext (drop 1 pk) = Inr signer)"
  by (auto simp: check_document_def and_then_eq_Ok Let_def ethereum_address_from_sec1_bytes_def
      split: option.splits if_splits sum.splits)

lemma verify_for_signer_Ok:
  "verify_attestation_for_signer aext production store signer version pcr0 = Ok u \<longleftrightarrow>
   (\<exists>bs doc. s3_get aext store (S3_BUCKET production) (show_address aext signer) = Inr (Inr bs) \<and>
      validate_doc aext bs = Inr doc \<and> check_document aext signer version pcr0 doc = Ok ())"
  by (auto simp: verify_attestation_for_signer_def verify_attestation_def split: sum.splits)

lemma got_object_iff:
  "(case x of Inl e \<Rightarrow> Err (f e) | Inr (Inl e) \<Rightarrow> Err (g e) | Inr (Inr b) \<Rightarrow> Ok (h b)) = Ok r \<longleftrightarrow>
   (\<exists>b. x = Inr (Inr b) \<and> h b = r)"
  by (cases x rule: sum.exhaust; cases "projr x") (auto split: sum.splits)

lemma fetch_object_Ok:
  "fetch_object aext production store k = Ok r \<longleftrightarrow>
   (\<exists>key. k = Some key \<and> parse_address aext key = Some (ra_address r) \<and>
     s3_get aext store (S3_BUCKET production) key = Inr (Inr (ra_attestation r)))"
  by (cases r) (auto simp: fetch_object_def and_then_eq_Ok got_object_iff)

lemma fetch_object_not_parse_error: "fetch_object aext production store k \<noteq> Err (ParseAddressError e)"
  by (cases k) (auto simp: fetch_object_def expect_def split: option.splits sum.splits)

lemma fetch_attestations_Ok:
  "fetch_attestations aext production store ks = Ok rs \<longleftrightarrow>
   list_all2 (\<lambda>k r. fetch_object aext production store k = Ok r) ks rs"
  by (induction ks arbitrary: rs) (auto simp: and_then_eq_Ok list_all2_Cons1)

lemma get_raw_attestations_Ok:
  assumes "get_raw_attestations aext production store = Ok rs"
  shows "\<exists>ks. s3_list aext store (S3_BUCKET production) = Inr (Some ks) \<and>
    list_all2 (\<lambda>k r. fetch_object aext production store k = Ok r) ks rs"
proof -
  obtain contents where l: "s3_list aext store (S3_BUCKET production) = Inr contents"
    using assms by (auto simp: get_raw_attestations_def split: sum.splits)
  with assms show ?thesis
    by (cases contents) (auto simp: get_raw_attestations_def fetch_attestations_Ok)
qed

text \<open>A listed object is among the attestations, under the address its key spells.\<close>

lemma listed_attestation:
  assumes "get_raw_attestations aext production store = Ok rs"
    and "\<And>ks. s3_list aext store (S3_BUCKET production) = Inr (Some ks) \<Longrightarrow> Some k \<in> set ks"
    and "parse_address aext k = Some a"
    and "s3_get aext store (S3_BUCKET production) k = Inr (Inr d)"
  shows "\<lparr>ra_address = a, ra_attestation = d\<rparr> \<in> set rs"
proof -
  obtain ks where ks: "s3_list aext store (S3_BUCKET production) = Inr (Some ks)"
    and all: "list_all2 (\<lambda>k r. fetch_object aext production store k = Ok r) ks rs"
    using get_raw_attestations_Ok [OF assms(1)] by blast
  obtain i where "i < length ks" "ks ! i = Some k"
    using assms(2) [OF ks] by (auto simp: in_set_conv_nth)
  with all have i: "i < length rs" "fetch_object aext production store (Some k) = Ok (rs ! i)"
    by (auto simp: list_all2_conv_all_nth)
  then have "ra_address (rs ! i) = a" "ra_attestation (rs ! i) = d"
    using assms(3,4) by (auto simp: fetch_object_Ok)
  then have "rs ! i = \<lparr>ra_address = a, ra_attestation = d\<rparr>" by (cases "rs ! i") simp
  with i(1) show ?thesis by (metis nth_mem)
qed

lemma fetch_attestations_not_parse_error:
  "fetch_attestations aext production store ks \<noteq> Err (ParseAddressError e)"
proof (induction ks)
  case (Cons k ks)
  then show ?case
    using fetch_object_not_parse_error [of aext production store k e]
    by (cases "fetch_object aext production store k"; cases "fetch_attestations aext production store ks")
      auto
qed simp

lemma save_attestation_enclave:
  assumes "bincode_ok qcd" and "bincode_ok rcd"
    and "encodable qcd AttestSigningKey" and "encodable qcd GetPublicKey"
    and "\<forall>r \<in> set (answers ext debug srv [AttestSigningKey, GetPublicKey]). encodable rcd r"
    and "sa_port args = ENCLAVE_PORT"
  shows "save_attestation aext ops qcd rcd (enclave_network ext debug qcd rcd srv (sa_cid args)) args store =
    (case join_attestation ext (fst (attest_signing_key ext srv)) of
       SigningKeyAttestation d \<Rightarrow>
         store_attestation aext ops store (sa_bucket args) d (get_public_key ext srv)
     | msg \<Rightarrow> (Err (UnexpectedMessage (response_type_of msg)), store))"
proof -
  let ?net = "enclave_network ext debug qcd rcd srv (sa_cid args)"
  let ?talk = "talking ext debug qcd rcd srv"
  let ?d = "join_attestation ext (fst (attest_signing_key ext srv))"
  let ?k = "PublicKey (get_public_key ext srv)"
  obtain hs where hs: "host_stream_new ?net (sa_cid args) (sa_port args) = Ok hs"
    using host_stream_new_enclave [of ext debug qcd rcd srv "sa_cid args"] assms(6) by auto
  then have t0: "?talk hs [] []" using talking_new assms(6) by metis
  obtain hs1 where s1: "host_send qcd hs AttestSigningKey = (Ok (), hs1)"
    and t1: "?talk hs1 [AttestSigningKey] [?d]"
    using talking_send [OF t0 assms(1,3)] assms(5) by auto
  obtain hs2 where s2: "host_send qcd hs1 GetPublicKey = (Ok (), hs2)"
    and t2: "?talk hs2 [AttestSigningKey, GetPublicKey] [?d, ?k]"
    using talking_send [OF t1 assms(1,4)] assms(5) by auto
  obtain hs3 where r1: "host_recv rcd hs2 = (Ok ?d, hs3)"
    and t3: "?talk hs3 [AttestSigningKey, GetPublicKey] [?k]"
    using talking_recv [OF t2 assms(1,2)] by auto
  obtain hs4 where r2: "host_recv rcd hs3 = (Ok ?k, hs4)"
    using talking_recv [OF t3 assms(1,2)] by auto
  show ?thesis
    by (simp add: save_attestation_def hs s1 s2 receive_attestation_def r1 r2
        split: enclave_response.split)
qed

lemma attested_document:
  assumes "join_attestation ext (fst (attest_signing_key ext srv)) = SigningKeyAttestation d"
  shows "nsm_process_request ext (nsm_init ext)
     (NsmAttestation (Some (to_le_bytes (sp1_tee_version ext))) None
       (Some (point_bytes ext (get_public_key ext srv)))) = Inr (NsmDocument d)"
  using assms
  by (auto simp: join_attestation_def attest_signing_key_def Let_def
      split: if_splits sum.splits nsm_response.splits)

text \<open>What a saved attestation of a working enclave is, and that it verifies.\<close>

lemma saved_attestation:
  assumes "bincode_ok qcd" and "bincode_ok rcd"
    and "encodable qcd AttestSigningKey" and "encodable qcd GetPublicKey"
    and "\<forall>r \<in> set (answers ext debug srv [AttestSigningKey, GetPublicKey]). encodable rcd r"
    and "nsm_attests ext aext p0" and "point_ops_ok ops"
    and "as_bytes ops (get_public_key ext srv) = point_bytes ext (get_public_key ext srv)"
    and "ethereum_address_from_encoded_point ops (addr_of_raw aext) (get_public_key ext srv) =
      Inr (Some signer)"
    and "sa_port args = ENCLAVE_PORT"
    and "save_attestation aext ops qcd rcd (enclave_network ext debug qcd rcd srv (sa_cid args))
      args store = (Ok (), store')"
  shows "\<exists>d doc pk. s3_put aext store (sa_bucket args) (show_address aext signer) d = (Inr (), store') \<and>
    validate_doc aext d = Inr doc \<and> doc_pcrs doc 0 = Some p0 \<and>
    doc_user_data doc = Some (to_le_bytes (sp1_tee_version ext)) \<and> doc_public_key doc = Some pk \<and>
    length pk = 65 \<and> pk ! 0 = 0x04 \<and> addr_of_raw aext (drop 1 pk) = Inr signer"
proof -
  let ?pt = "get_public_key ext srv"
  have "(case join_attestation ext (fst (attest_signing_key ext srv)) of
       SigningKeyAttestation d \<Rightarrow> store_attestation aext ops store (sa_bucket args) d ?pt
     | msg \<Rightarrow> (Err (UnexpectedMessage (response_type_of msg)), store)) = (Ok (), store')"
    using save_attestation_enclave [OF assms(1-5,10), of aext ops store] assms(11) by simp
  then obtain d where d: "join_attestation ext (fst (attest_signing_key ext srv)) = SigningKeyAttestation d"
    and "store_attestation aext ops store (sa_bucket args) d ?pt = (Ok (), store')"
    by (auto split: enclave_response.splits)
  then have "s3_put aext store (sa_bucket args) (show_address aext signer) d = (Inr (), store')"
    using assms(9) by (auto simp: store_attestation_def split: prod.splits sum.splits)
  moreover obtain doc where "validate_doc aext d = Inr doc" "doc_pcrs doc 0 = Some p0"
      "doc_user_data doc = Some (to_le_bytes (sp1_tee_version ext))"
      "doc_public_key doc = Some (as_bytes ops ?pt)"
    using assms(6,8) attested_document [OF d] unfolding nsm_attests_def by metis
  moreover have "length (as_bytes ops ?pt) = 65 \<and> as_bytes ops ?pt ! 0 = 0x04 \<and>
      addr_of_raw aext (drop 1 (as_bytes ops ?pt)) = Inr signer"
    using point_address_some [OF assms(9)] by (simp add: sec1_Some)
  ultimately show ?thesis by blast
qed

lemma saved_attestation_verifies:
  assumes "s3_ok aext" and "s3_put aext store (S3_BUCKET production) (show_address aext signer) d = (Inr (), store')"
    and "validate_doc aext d = Inr doc" and "doc_pcrs doc 0 = Some p0" and "hex_encode aext p0 = erase_0x pcr0"
    and "doc_user_data doc = Some (to_le_bytes version)" and "doc_public_key doc = Some pk"
    and "length pk = 65" and "pk ! 0 = 0x04" and "addr_of_raw aext (drop 1 pk) = Inr signer"
  shows "verify_attestation_for_signer aext production store' signer version pcr0 = Ok ()"
proof -
  have "s3_get aext store' (S3_BUCKET production) (show_address aext signer) = Inr (Inr d)"
    using assms(1,2) by (auto simp: s3_ok_def)
  then show ?thesis using assms by (auto simp: verify_for_signer_Ok check_document_Ok)
qed

section \<open>A concrete store\<close>

text \<open>
  For concrete runs: a store that is a list of objects, addresses shown in unary, documents
  that are the user data followed by the key, and an enclave image whose PCR0 is one byte.
\<close>

definition toy_aext :: "(string \<times> bytes) list attestation_ext" where
  "toy_aext = \<lparr>
     s3_list = (\<lambda>st b. Inr (if st = [] then None else Some (map (Some \<circ> fst) st))),
     s3_get = (\<lambda>st b k. case map_of st k of None \<Rightarrow> Inl ''NoSuchKey'' | Some v \<Rightarrow> Inr (Inr v)),
     s3_put = (\<lambda>st b k v. (Inr (), (k, v) # filter (\<lambda>kv. fst kv \<noteq> k) st)),
     parse_address = (\<lambda>s. if set s \<subseteq> {CHR ''x''} then Some (of_nat (length s)) else None),
     show_address = (\<lambda>a. replicate (unat a) CHR ''x''),
     validate_doc = (\<lambda>d. if length d < 4 then Inl ''short'' else
       Inr \<lparr>doc_pcrs = [0 \<mapsto> [9]], doc_user_data = Some (take 4 d), doc_public_key = Some (drop 4 d)\<rparr>),
     hex_encode = (\<lambda>bs. map (\<lambda>b. char_of (48 + unat b)) bs),
     hex_decode = (\<lambda>s. Inr (map (\<lambda>c. of_nat (of_char c - 48)) s)),
     addr_of_raw = toy_raw_address\<rparr>"

lemma toy_s3_ok: "s3_ok toy_aext"
  by (auto simp: s3_ok_def toy_aext_def)

text \<open>The user data a server sends is the version, four bytes; the toy documents rely on that.\<close>

definition stored_doc :: bytes where
  "stored_doc = [1, 0, 0, 0, 4] @ replicate 63 0 @ [7]"

lemma toy_address_7: "toy_raw_address (replicate 63 0 @ [7]) = Inr 7"
  by (simp add: toy_raw_address_def sum_list_replicate)

lemma toy_nsm_attests: "nsm_attests toy_ext toy_aext [9]"
  by (auto simp: nsm_attests_def toy_ext_def toy_aext_def split: if_splits)

lemma toy_public_key: "get_public_key toy_ext toy_server = 4 # replicate 63 0 @ [7]"
  by (simp add: toy_eval)

lemma toy_attestation:
  "join_attestation toy_ext (fst (attest_signing_key toy_ext toy_server)) = SigningKeyAttestation stored_doc"
  by (simp add: toy_eval to_le_bytes_def to_be_bytes_def Let_def stored_doc_def)

lemma toy_answers_encodable:
  "\<forall>r \<in> set (answers toy_ext False toy_server [AttestSigningKey, GetPublicKey]).
     encodable toy_response_codec r"
  by (simp add: toy_attestation toy_public_key)
    (simp add: toy_response_codec_def wire_eval stored_doc_def)

lemma toy_requests_encodable:
  "encodable toy_request_codec AttestSigningKey" "encodable toy_request_codec GetPublicKey"
  "encodable toy_request_codec CloseSession"
  by (simp_all add: toy_request_codec_def wire_eval)

lemma toy_signer:
  "ethereum_address_from_encoded_point toy_points (addr_of_raw toy_aext) (4 # replicate 63 0 @ [7]) =
     Inr (Some 7)"
  by (simp add: ethereum_address_from_encoded_point_def ethereum_address_from_sec1_bytes_def
      toy_points_def toy_aext_def toy_address_7)

lemma toy_save:
  "save_attestation toy_aext toy_points toy_request_codec toy_response_codec
     (enclave_network toy_ext False toy_request_codec toy_response_codec toy_server 10)
     (default_save_attestation_args True) [] = (Ok (), [(replicate 7 CHR ''x'', stored_doc)])"
proof -
  have "sa_cid (default_save_attestation_args True) = 10"
    and port: "sa_port (default_save_attestation_args True) = ENCLAVE_PORT"
    by (simp_all add: default_save_attestation_args_def)
  then show ?thesis
    using save_attestation_enclave [OF toy_request_codec_ok toy_response_codec_ok
        toy_requests_encodable(1,2) toy_answers_encodable port, of toy_aext toy_points "[]"]
    by (simp add: toy_attestation toy_public_key store_attestation_def toy_signer)
      (simp add: toy_aext_def)
qed

section \<open>Properties\<close>

text \<open>
  C4. A signer's attestation is accepted exactly when the object stored under its address is a
  document that validates against the root of trust, its PCR0 in lower-case hex is the given value
  (less any \<open>0x\<close>), its user data is the version in little-endian bytes, and its public key is an
  uncompressed point whose address is the signer. Nothing else is accepted.
\<close>

theorem verify_accepts_iff:
  "verify_attestation_for_signer aext production store signer version pcr0 = Ok () \<longleftrightarrow>
   (\<exists>bs doc p0 pk.
      s3_get aext store (S3_BUCKET production) (show_address aext signer) = Inr (Inr bs) \<and>
      validate_doc aext bs = Inr doc \<and>
      doc_pcrs doc 0 = Some p0 \<and> hex_encode aext p0 = erase_0x pcr0 \<and>
      doc_user_data doc = Some (to_le_bytes version) \<and>
      doc_public_key doc = Some pk \<and> length pk = 65 \<and> pk ! 0 = 0x04 \<and>
      addr_of_raw aext (drop 1 pk) = Inr signer)"
  by (auto simp: verify_for_signer_Ok check_document_Ok)

text \<open>
  C35. When the checks on a validated document panic instead of returning an error: exactly when the
  document has no PCR0, or when its PCR0 is right and its version is another one whose bytes are not
  UTF-8, since the mismatch is reported by decoding the bytes as a string and unwrapping the result.
\<close>

theorem check_document_panics_iff:
  assumes "raw_address_ok (addr_of_raw aext)"
  shows "panics (check_document aext signer version pcr0 doc) \<longleftrightarrow>
    doc_pcrs doc 0 = None \<or>
    (\<exists>p0 ud. doc_pcrs doc 0 = Some p0 \<and> hex_encode aext p0 = erase_0x pcr0 \<and>
       doc_user_data doc = Some ud \<and> ud \<noteq> to_le_bytes version \<and> \<not> utf8_ok ud)"
proof (cases "doc_pcrs doc 0")
  case None
  then show ?thesis by (simp add: check_document_def)
next
  case (Some p0)
  note sec1_no_panic [OF assms, simp]
  have key: "\<not> panics (case doc_public_key doc of None \<Rightarrow> Ok None
      | Some b \<Rightarrow> (case ethereum_address_from_sec1_bytes (addr_of_raw aext) b of
          Inl p \<Rightarrow> Panic p | Inr a \<Rightarrow> Ok a))"
    by (auto split: option.split sum.split)
  show ?thesis
  proof (cases "hex_encode aext p0 = erase_0x pcr0")
    case False
    with Some show ?thesis by (simp add: check_document_def)
  next
    case True
    with Some key show ?thesis
      by (cases "doc_user_data doc")
        (auto simp: check_document_def from_utf8_def panics_and_then simp del: panics_simps
          simp: panics_simps(1) panics_simps(2) panics_simps(3) [unfolded eq_True [symmetric]])
  qed
qed

theorem check_document_panics_iff_witness:
  "panics (check_document toy_aext 7 1 ''0x9''
     \<lparr>doc_pcrs = [0 \<mapsto> [9]], doc_user_data = Some (to_le_bytes 200), doc_public_key = None\<rparr>)"
proof -
  have addr: "raw_address_ok (addr_of_raw toy_aext)" by (simp add: toy_aext_def)
  have "hex_encode toy_aext [9] = ''9''" by (simp add: toy_aext_def char_of_def bit_0)
  moreover have "to_le_bytes 200 \<noteq> to_le_bytes 1" by simp
  moreover have "\<not> utf8_ok (to_le_bytes 200)"
    by (simp add: to_le_bytes_def to_be_bytes_def between_def)
  ultimately show ?thesis
    unfolding check_document_panics_iff [OF addr] by simp
qed

text \<open>
  C34. The listing of the bucket is all or nothing: if it returns, it returns one attestation per
  object, in the order listed, each with its own content and the address its key spells. Documented
  as an error, a key that is not an address is a panic: \<open>ParseAddressError\<close> is never returned.
\<close>

theorem get_raw_attestations_all_or_nothing:
  "(get_raw_attestations aext production store = Ok rs \<longrightarrow>
     (\<exists>ks. s3_list aext store (S3_BUCKET production) = Inr (Some ks) \<and>
        list_all2 (\<lambda>k r. \<exists>key. k = Some key \<and> parse_address aext key = Some (ra_address r) \<and>
          s3_get aext store (S3_BUCKET production) key = Inr (Inr (ra_attestation r))) ks rs)) \<and>
   get_raw_attestations aext production store \<noteq> Err (ParseAddressError e)"
proof -
  let ?ls = "s3_list aext store (S3_BUCKET production)"
  consider (err) x where "?ls = Inl x" | (none) "?ls = Inr None" | (some) ks where "?ls = Inr (Some ks)"
    by (metis not_None_eq obj_sumE)
  then show ?thesis
    by cases (auto simp: get_raw_attestations_def fetch_attestations_not_parse_error
        fetch_attestations_Ok fetch_object_Ok)
qed

theorem get_raw_attestations_all_or_nothing_witness:
  "\<exists>ks. s3_list toy_aext [(''x'', [1])] (S3_BUCKET True) = Inr (Some ks) \<and>
     list_all2 (\<lambda>k r. \<exists>key. k = Some key \<and> parse_address toy_aext key = Some (ra_address r) \<and>
       s3_get toy_aext [(''x'', [1])] (S3_BUCKET True) key = Inr (Inr (ra_attestation r))) ks
       [\<lparr>ra_address = 1, ra_attestation = [1]\<rparr>]"
proof -
  have "get_raw_attestations toy_aext True [(''x'', [1])] = Ok [\<lparr>ra_address = 1, ra_attestation = [1]\<rparr>]"
    by (simp add: get_raw_attestations_def fetch_object_def toy_aext_def of_char_def)
  then show ?thesis
    using get_raw_attestations_all_or_nothing [of toy_aext True "[(''x'', [1])]"] by blast
qed



text \<open>
  C18. The round trip of an attestation: once the host has saved the attestation of a working
  enclave, verifying the signer whose address is that of the enclave's key, at the enclave's version
  and for the measurement of its image, succeeds.
\<close>

theorem save_then_verify:
  assumes "bincode_ok qcd" and "bincode_ok rcd"
    and "encodable qcd AttestSigningKey" and "encodable qcd GetPublicKey"
    and "\<forall>r \<in> set (answers ext debug srv [AttestSigningKey, GetPublicKey]). encodable rcd r"
    and "s3_ok aext" and "nsm_attests ext aext p0" and "point_ops_ok ops"
    and "as_bytes ops (get_public_key ext srv) = point_bytes ext (get_public_key ext srv)"
    and "ethereum_address_from_encoded_point ops (addr_of_raw aext) (get_public_key ext srv) =
      Inr (Some signer)"
    and "save_attestation aext ops qcd rcd (enclave_network ext debug qcd rcd srv 10)
      (default_save_attestation_args production) store = (Ok (), store')"
    and "hex_encode aext p0 = erase_0x pcr0"
  shows "verify_attestation_for_signer aext production store' signer (sp1_tee_version ext) pcr0 = Ok ()"
proof -
  let ?args = "default_save_attestation_args production"
  have args: "sa_cid ?args = 10" "sa_port ?args = ENCLAVE_PORT" "sa_bucket ?args = S3_BUCKET production"
    by (simp_all add: default_save_attestation_args_def)
  have "save_attestation aext ops qcd rcd (enclave_network ext debug qcd rcd srv (sa_cid ?args)) ?args store =
      (Ok (), store')"
    using assms(11) by (simp only: args)
  from saved_attestation [OF assms(1-5,7-10) args(2) this] show ?thesis
    using saved_attestation_verifies [OF assms(6) _ _ _ assms(12)] unfolding args by blast
qed

theorem save_then_verify_witness:
  "verify_attestation_for_signer toy_aext True [(replicate 7 CHR ''x'', stored_doc)] 7 1 ''0x9'' = Ok ()"
proof -
  have pt: "as_bytes toy_points (get_public_key toy_ext toy_server) =
      point_bytes toy_ext (get_public_key toy_ext toy_server)"
    by (simp add: toy_points_def toy_ext_def)
  have signer: "ethereum_address_from_encoded_point toy_points (addr_of_raw toy_aext)
      (get_public_key toy_ext toy_server) = Inr (Some 7)"
    by (simp add: toy_public_key toy_signer)
  have hex: "hex_encode toy_aext [9] = erase_0x ''0x9''"
    by (simp add: toy_aext_def char_of_def bit_0)
  have "sp1_tee_version toy_ext = 1" by (simp add: toy_ext_def)
  with save_then_verify [OF toy_request_codec_ok toy_response_codec_ok toy_requests_encodable(1,2)
      toy_answers_encodable toy_s3_ok toy_nsm_attests toy_address_ok(2) pt signer toy_save hex]
  show ?thesis by simp
qed

end
