(* ===== verification/Host_Errors.thy ===== *)
theory Host_Errors
  imports Attestations
begin

text \<open>
  The errors of the host server and how they reach a client: \<open>ServerError\<close> with its \<open>Display\<close> and
  \<open>IntoResponse\<close> implementations (\<open>host/src/server.rs\<close>) and the conversion of a result into a
  server-sent event (\<open>host/src/api.rs\<close>). Payloads that are errors of other crates are kept as the
  text they render to.
\<close>

section \<open>Server errors\<close>

datatype server_error =
    FailedToConnectToEnclave
  | FailedToSendRequestToEnclave
  | FailedToReceiveResponseFromEnclave
  | UnexpectedResponseFromEnclave
  | FailedToConvertPublicKeyToAddress
  | EnclaveError string
  | StdinTooLarge nat
  | ProgramTooLarge nat
  | FailedToDeserializeRequest string
  | FailedToParseEnclaveMeasurement string
  | ServerIoError string
  | FailedToGetAttestations get_attestation_error
  | FailedToAuthenticateRequest

text \<open>\<open>to_string\<close>\<close>

fun show_server_error :: "server_error \<Rightarrow> string" where
  "show_server_error FailedToConnectToEnclave = ''Failed to connect to enclave''"
| "show_server_error FailedToSendRequestToEnclave = ''Failed to send request to enclave''"
| "show_server_error FailedToReceiveResponseFromEnclave = ''Failed to receive response from enclave''"
| "show_server_error UnexpectedResponseFromEnclave = ''Unexpected response from enclave''"
| "show_server_error FailedToConvertPublicKeyToAddress = ''Failed to convert public key to address''"
| "show_server_error (EnclaveError e) = ''Enclave error: '' @ e"
| "show_server_error (StdinTooLarge n) = ''Stdin is too large, found '' @ show_nat n @ '' bytes''"
| "show_server_error (ProgramTooLarge n) = ''Program is too large, found '' @ show_nat n @ '' bytes''"
| "show_server_error (FailedToDeserializeRequest e) = ''Failed to deserialize request, '' @ e"
| "show_server_error (FailedToParseEnclaveMeasurement e) =
     ''Failed to deserialize enclave measurement: '' @ e"
| "show_server_error (ServerIoError e) = ''Io Error when fetching enclave measurement: '' @ e"
| "show_server_error (FailedToGetAttestations e) =
     ''Failed to get attestations: '' @ show_get_attestation_error e"
| "show_server_error FailedToAuthenticateRequest = ''Failed to authenticate request''"

datatype status_code = BAD_REQUEST | UNAUTHORIZED | PAYLOAD_TOO_LARGE | INTERNAL_SERVER_ERROR

text \<open>\<open>into_response\<close>\<close>

fun into_response :: "server_error \<Rightarrow> status_code \<times> string" where
  "into_response FailedToConnectToEnclave = (INTERNAL_SERVER_ERROR, ''Failed to connect to enclave'')"
| "into_response FailedToSendRequestToEnclave =
     (INTERNAL_SERVER_ERROR, ''Failed to send request to enclave'')"
| "into_response FailedToReceiveResponseFromEnclave =
     (INTERNAL_SERVER_ERROR, ''Failed to receive response from enclave'')"
| "into_response UnexpectedResponseFromEnclave =
     (INTERNAL_SERVER_ERROR, ''Unexpected response from enclave'')"
| "into_response FailedToConvertPublicKeyToAddress =
     (INTERNAL_SERVER_ERROR, ''Failed to convert public key to address, this is a bug.'')"
| "into_response (EnclaveError e) = (INTERNAL_SERVER_ERROR, e)"
| "into_response (StdinTooLarge n) =
     (PAYLOAD_TOO_LARGE, ''Stdin is too large, found '' @ show_nat n @ '' bytes'')"
| "into_response (ProgramTooLarge n) =
     (PAYLOAD_TOO_LARGE, ''Program is too large, found '' @ show_nat n @ '' bytes'')"
| "into_response (FailedToDeserializeRequest e) =
     (BAD_REQUEST, ''Failed to deserialize request, '' @ e)"
| "into_response (FailedToParseEnclaveMeasurement e) =
     (INTERNAL_SERVER_ERROR, ''Failed to parse enclave measurement, '' @ e)"
| "into_response (ServerIoError e) =
     (INTERNAL_SERVER_ERROR, ''Io error when fetching enclave measurement, '' @ e)"
| "into_response (FailedToGetAttestations e) =
     (INTERNAL_SERVER_ERROR, ''Failed to get attestations, '' @ show_get_attestation_error e)"
| "into_response FailedToAuthenticateRequest = (UNAUTHORIZED, ''Failed to authenticate request'')"

lemma client_errors:
  "fst (into_response e) \<noteq> INTERNAL_SERVER_ERROR \<longleftrightarrow>
   (\<exists>n. e = StdinTooLarge n) \<or> (\<exists>n. e = ProgramTooLarge n) \<or>
   (\<exists>t. e = FailedToDeserializeRequest t) \<or> e = FailedToAuthenticateRequest"
  by (cases e) simp_all

section \<open>Events\<close>

text \<open>The fields of \<open>sp1_sdk\<close>'s \<open>TEEResponse\<close> that the server fills in, and its \<open>EventPayload\<close>.\<close>

record 'sig tee_response =
  tr_vkey :: bytes
  tr_public_values :: bytes
  tr_signature :: 'sig
  tr_recovery_id :: u8

datatype 'sig event_payload = Success "'sig tee_response" | EventError string

text \<open>\<open>hex_enc\<close> is \<open>hex::encode\<close>; the event is its \<open>data\<close> field.\<close>

definition event_payload_to_event ::
  "'sig event_payload bincode \<Rightarrow> (bytes \<Rightarrow> string) \<Rightarrow> 'sig event_payload \<Rightarrow> (string, string) outcome" where
  "event_payload_to_event ecd hex_enc event =
     (case serialize ecd event of
        Inl _ \<Rightarrow> Panic ''Failed to serialize response''
      | Inr bs \<Rightarrow> Ok (hex_enc bs))"

fun result_to_event_payload :: "(server_error, 'sig tee_response) outcome \<Rightarrow> (string, 'sig event_payload) outcome" where
  "result_to_event_payload (Ok response) = Ok (Success response)"
| "result_to_event_payload (Err e) = Ok (EventError (show_server_error e))"
| "result_to_event_payload (Panic p) = Panic p"

definition result_to_event ::
  "'sig event_payload bincode \<Rightarrow> (bytes \<Rightarrow> string) \<Rightarrow> (server_error, 'sig tee_response) outcome \<Rightarrow>
   (string, string) outcome" where
  "result_to_event ecd hex_enc response =
     and_then (result_to_event_payload response) (event_payload_to_event ecd hex_enc)"

text \<open>What a client reads from an event: \<open>unhex\<close> is its \<open>hex::decode\<close>, the codec is the same.\<close>

definition event_read ::
  "'sig event_payload bincode \<Rightarrow> (string \<Rightarrow> bytes option) \<Rightarrow> string \<Rightarrow> 'sig event_payload option" where
  "event_read ecd unhex event_data =
     Option.bind (unhex event_data) (\<lambda>bs. case deserialize ecd bs of Inl _ \<Rightarrow> None | Inr p \<Rightarrow> Some p)"

lemma event_read_result:
  assumes "bincode_ok ecd" and "\<And>bs. unhex (hex_enc bs) = Some bs"
    and "result_to_event ecd hex_enc response = Ok event_data"
  shows "\<exists>p. result_to_event_payload response = Ok p \<and> event_read ecd unhex event_data = Some p"
proof -
  obtain p where p: "result_to_event_payload response = Ok p"
      and ev: "event_payload_to_event ecd hex_enc p = Ok event_data"
    using assms(3) by (auto simp: result_to_event_def and_then_eq_Ok)
  then obtain bs where "serialize ecd p = Inr bs" and "event_data = hex_enc bs"
    by (cases "serialize ecd p") (simp_all add: event_payload_to_event_def)
  then show ?thesis using p assms(1,2) by (simp add: event_read_def bincode_ok_def)
qed

end
