(* ===== verification/Host_Auth.thy ===== *)
theory Host_Auth
  imports Tee_Prelude
begin

text \<open>
  The client of the prover network's whitelist: \<open>host/src/server/auth.rs\<close>. The gRPC stack (\<open>tonic\<close>)
  is a parameter: whether an address is a valid endpoint, whether TLS can be configured, the
  connection it makes for an endpoint (\<open>'chan\<close>) and the answer of the service on it.
\<close>

record auth_client =
  auth_url :: string

text \<open>The settings the code gives an endpoint; durations are in seconds.\<close>

record endpoint =
  ep_uri :: string
  ep_timeout :: nat
  ep_connect_timeout :: nat
  ep_keep_alive_while_idle :: bool
  ep_http2_keep_alive_interval :: nat
  ep_keep_alive_timeout :: nat
  ep_tcp_keepalive :: "nat option"
  ep_tcp_nodelay :: bool
  ep_tls :: bool

record 'chan grpc =
  invalid_uri :: "string \<Rightarrow> string option"
  tls_error :: "string \<Rightarrow> string option"
  connect_endpoint :: "endpoint \<Rightarrow> string + 'chan"
  tee_whitelist_status :: "'chan \<Rightarrow> bytes \<Rightarrow> string + bool"

datatype auth_client_error =
  FailedToConnectToProverNetwork string | FailedToGetTeeWhitelistStatus string

definition configure_endpoint :: "'chan grpc \<Rightarrow> string \<Rightarrow> string + endpoint" where
  "configure_endpoint g addr =
     (case invalid_uri g addr of
        Some e \<Rightarrow> Inl e
      | None \<Rightarrow>
          let endpoint = \<lparr>ep_uri = addr, ep_timeout = 60, ep_connect_timeout = 15,
            ep_keep_alive_while_idle = True, ep_http2_keep_alive_interval = 15,
            ep_keep_alive_timeout = 15, ep_tcp_keepalive = Some 60, ep_tcp_nodelay = True,
            ep_tls = False\<rparr>
          in if starts_with addr ''https://''
             then (case tls_error g addr of
                     Some e \<Rightarrow> Inl e
                   | None \<Rightarrow> Inr (endpoint\<lparr>ep_tls := True\<rparr>))
             else Inr endpoint)"

definition auth_client_new :: "string \<Rightarrow> auth_client" where
  "auth_client_new addr = \<lparr>auth_url = addr\<rparr>"

definition get_prover_client :: "'chan grpc \<Rightarrow> auth_client \<Rightarrow> auth_client_error + 'chan" where
  "get_prover_client g client =
     (case configure_endpoint g (auth_url client) of
        Inl e \<Rightarrow> Inl (FailedToConnectToProverNetwork e)
      | Inr endpoint \<Rightarrow>
          (case connect_endpoint g endpoint of
             Inl e \<Rightarrow> Inl (FailedToConnectToProverNetwork e)
           | Inr channel \<Rightarrow> Inr channel))"

definition is_whitelisted :: "'chan grpc \<Rightarrow> auth_client \<Rightarrow> address \<Rightarrow> auth_client_error + bool" where
  "is_whitelisted g client a =
     (case get_prover_client g client of
        Inl e \<Rightarrow> Inl e
      | Inr channel \<Rightarrow>
          (case tee_whitelist_status g channel (address_bytes a) of
             Inl e \<Rightarrow> Inl (FailedToGetTeeWhitelistStatus e)
           | Inr b \<Rightarrow> Inr b))"

lemma configure_endpoint_tls:
  "configure_endpoint g addr = Inr ep \<Longrightarrow>
   ep_uri ep = addr \<and> (ep_tls ep \<longleftrightarrow> starts_with addr ''https://'')"
  by (auto simp: configure_endpoint_def Let_def split: option.splits if_splits)

lemma is_whitelisted_Inr:
  "is_whitelisted g client a = Inr b \<longleftrightarrow>
   (\<exists>ep channel. configure_endpoint g (auth_url client) = Inr ep \<and>
      connect_endpoint g ep = Inr channel \<and> tee_whitelist_status g channel (address_bytes a) = Inr b)"
  by (auto simp: is_whitelisted_def get_prover_client_def split: sum.splits)

text \<open>A network that whitelists the address 7, for concrete runs.\<close>

definition toy_grpc :: "endpoint grpc" where
  "toy_grpc = \<lparr>invalid_uri = (\<lambda>s. None), tls_error = (\<lambda>s. None), connect_endpoint = Inr,
     tee_whitelist_status = (\<lambda>ep a. Inr (last a = 7))\<rparr>"

section \<open>Properties\<close>

text \<open>
  An address counts as whitelisted only on the word of the configured service: a positive
  answer was received, for the 20 bytes of this very address, on a connection to the configured
  URL, and over TLS if that URL is an https one.
\<close>

lemma whitelisted_only_on_answer:
  assumes "is_whitelisted g client a = Inr True"
  shows "\<exists>ep channel. connect_endpoint g ep = Inr channel \<and> ep_uri ep = auth_url client \<and>
    (ep_tls ep \<longleftrightarrow> starts_with (auth_url client) ''https://'') \<and>
    tee_whitelist_status g channel (address_bytes a) = Inr True"
  using assms by (auto simp: is_whitelisted_Inr dest!: configure_endpoint_tls)

lemma whitelisted_only_on_answer_witness:
  "\<exists>ep :: endpoint. ep_uri ep = ''https://rpc'' \<and> ep_tls ep"
proof -
  have "last (address_bytes 7) = 7" by (simp add: address_bytes_def upt_rec)
  then have "is_whitelisted toy_grpc (auth_client_new ''https://rpc'') 7 = Inr True"
    by (simp add: is_whitelisted_def get_prover_client_def configure_endpoint_def toy_grpc_def
        auth_client_new_def starts_with_def Let_def)
  from whitelisted_only_on_answer [OF this]
  show ?thesis by (auto simp: auth_client_new_def starts_with_def)
qed

end
