(* ===== verification/Host_Server.thy ===== *)
theory Host_Server
  imports Host_Errors Host_Auth
begin

text \<open>
  The handlers of the host server: \<open>host/bin/server.rs\<close>. \<open>/execute\<close> authenticates a request and
  relays it to the enclave, \<open>/address\<close> asks the enclave for its key, \<open>/signers\<close> lists the signers of
  the saved attestations. The execution mutex is the subject of \<open>Host_Concurrency\<close>; here a handler
  runs alone.
\<close>

text \<open>The fields of \<open>sp1_sdk\<close>'s \<open>TEERequest\<close>; \<open>'rsig\<close> is the requester's signature.\<close>

record ('stdin, 'rsig) tee_request =
  rq_id :: bytes
  rq_program :: bytes
  rq_stdin :: 'stdin
  rq_cycle_limit :: u64
  rq_signature :: 'rsig

text \<open>
  What the handlers use: the network to the enclave, the codecs, the features \<open>production\<close> and
  debug assertions (which make integer overflow panic), the recovery of the address that signed a
  message, and the gRPC stack.
\<close>

record ('stdin, 'pt, 'sig, 'rsig, 'chan) host_ext =
  h_net :: network
  h_requests :: "'stdin enclave_request bincode"
  h_responses :: "('pt, 'sig) enclave_response bincode"
  h_tee_requests :: "('stdin, 'rsig) tee_request bincode"
  h_events :: "'sig event_payload bincode"
  h_signers :: "address list bincode"
  h_hex :: "bytes \<Rightarrow> string"
  h_recover :: "'rsig \<Rightarrow> bytes \<Rightarrow> address option"
  h_grpc :: "'chan grpc"
  h_points :: "'pt point_ops"
  h_raw_address :: raw_address
  h_production :: bool
  h_overflow_checks :: bool

record host_server =
  srv_cid :: u32
  srv_auth_client :: auth_client

section \<open>Executing a program\<close>

text \<open>\<open>recovery_id + 27\<close> on \<open>u8\<close>\<close>

definition ethereum_recovery_id :: "bool \<Rightarrow> u8 \<Rightarrow> ('e, u8) outcome" where
  "ethereum_recovery_id overflow_checks recovery_id =
     (if overflow_checks \<and> 256 \<le> unat recovery_id + 27 then Panic ''attempt to add with overflow''
      else Ok (recovery_id + 27))"

text \<open>The match on the enclave's response at the end of \<open>execute_inner\<close>.\<close>

fun execution_result ::
  "bool \<Rightarrow> ('pt, 'sig) enclave_response \<Rightarrow> (server_error, 'sig tee_response) outcome" where
  "execution_result overflow_checks (SignedPublicValues vkey public_values signature recovery_id) =
     and_then (ethereum_recovery_id overflow_checks recovery_id) (\<lambda>v.
       Ok \<lparr>tr_vkey = vkey, tr_public_values = public_values, tr_signature = signature,
           tr_recovery_id = v\<rparr>)"
| "execution_result overflow_checks (Error error) = Err (EnclaveError error)"
| "execution_result overflow_checks _ = Err UnexpectedResponseFromEnclave"

text \<open>Leaving a handler drops its stream: the result, and the socket after the drop.\<close>

definition leaving ::
  "'stdin enclave_request bincode \<Rightarrow> host_stream \<Rightarrow> ('e, 'a) outcome \<Rightarrow>
   ('e, 'a) outcome \<times> raw_stream option" where
  "leaving qcd hs r =
     (case host_drop qcd hs of
        Ok s \<Rightarrow> (r, Some s) | Err _ \<Rightarrow> (r, None) | Panic p \<Rightarrow> (Panic p, None))"

text \<open>
  One request and its answer, as \<open>execute_inner\<close> and \<open>get_address\<close> make them: connect, send, receive,
  each failure under its own error, and the rest of the handler on the response.
\<close>

definition ask_enclave ::
  "('stdin, 'pt, 'sig, 'rsig, 'chan) host_ext \<Rightarrow> u32 \<Rightarrow> 'stdin enclave_request \<Rightarrow>
   (('pt, 'sig) enclave_response \<Rightarrow> (server_error, 'a) outcome) \<Rightarrow>
   (server_error, 'a) outcome \<times> raw_stream option" where
  "ask_enclave h cid request continue =
     (case host_stream_new (h_net h) cid ENCLAVE_PORT of
        Err _ \<Rightarrow> (Err FailedToConnectToEnclave, None)
      | Panic p \<Rightarrow> (Panic p, None)
      | Ok hs \<Rightarrow>
          (case host_send (h_requests h) hs request of
             (Err _, hs1) \<Rightarrow> leaving (h_requests h) hs1 (Err FailedToSendRequestToEnclave)
           | (Panic p, hs1) \<Rightarrow> leaving (h_requests h) hs1 (Panic p)
           | (Ok _, hs1) \<Rightarrow>
               (case host_recv (h_responses h) hs1 of
                  (Err _, hs2) \<Rightarrow> leaving (h_requests h) hs2 (Err FailedToReceiveResponseFromEnclave)
                | (Panic p, hs2) \<Rightarrow> leaving (h_requests h) hs2 (Panic p)
                | (Ok response, hs2) \<Rightarrow> leaving (h_requests h) hs2 (continue response))))"

definition execute_inner ::
  "('stdin, 'pt, 'sig, 'rsig, 'chan) host_ext \<Rightarrow> u32 \<Rightarrow> ('stdin, 'rsig) tee_request \<Rightarrow>
   (server_error, 'sig tee_response) outcome \<times> raw_stream option" where
  "execute_inner h cid request =
     ask_enclave h cid (Execute (rq_stdin request) (rq_program request) (rq_cycle_limit request))
       (execution_result (h_overflow_checks h))"

text \<open>The block of \<open>execute\<close> under the \<open>production\<close> feature.\<close>

definition authenticate ::
  "('stdin, 'pt, 'sig, 'rsig, 'chan) host_ext \<Rightarrow> auth_client \<Rightarrow> ('stdin, 'rsig) tee_request \<Rightarrow>
   (server_error, unit) outcome" where
  "authenticate h client request =
     (if h_production h
      then (case h_recover h (rq_signature request) (rq_id request) of
              None \<Rightarrow> Err FailedToAuthenticateRequest
            | Some signer \<Rightarrow>
                (case is_whitelisted (h_grpc h) client signer of
                   Inr whitelisted \<Rightarrow>
                     if whitelisted then Ok () else Err FailedToAuthenticateRequest
                 | Inl e \<Rightarrow> Err FailedToAuthenticateRequest))
      else Ok ())"

text \<open>
  \<open>execute\<close>: an error is an HTTP error; otherwise the response is a stream of one event, which runs
  \<open>execute_inner\<close> when it is polled. The third part is the connection to the enclave it made.
\<close>

definition execute_handler ::
  "('stdin, 'pt, 'sig, 'rsig, 'chan) host_ext \<Rightarrow> host_server \<Rightarrow> bytes \<Rightarrow>
   (server_error, (string, string) outcome) outcome \<times> raw_stream option" where
  "execute_handler h server req =
     (case deserialize (h_tee_requests h) req of
        Inl e \<Rightarrow> (Err (FailedToDeserializeRequest e), None)
      | Inr request \<Rightarrow>
          (case authenticate h (srv_auth_client server) request of
             Err e \<Rightarrow> (Err e, None)
           | Panic p \<Rightarrow> (Panic p, None)
           | Ok _ \<Rightarrow>
               (case execute_inner h (srv_cid server) request of
                  (response, socket) \<Rightarrow> (Ok (result_to_event (h_events h) (h_hex h) response), socket))))"

section \<open>The address of the enclave\<close>

fun address_result ::
  "'pt point_ops \<Rightarrow> raw_address \<Rightarrow> ('pt, 'sig) enclave_response \<Rightarrow> (server_error, address) outcome" where
  "address_result ops from_raw (PublicKey public_key) =
     (case ethereum_address_from_encoded_point ops from_raw public_key of
        Inl p \<Rightarrow> Panic p
      | Inr None \<Rightarrow> Err FailedToConvertPublicKeyToAddress
      | Inr (Some a) \<Rightarrow> Ok a)"
| "address_result ops from_raw _ = Err UnexpectedResponseFromEnclave"

definition get_address ::
  "('stdin, 'pt, 'sig, 'rsig, 'chan) host_ext \<Rightarrow> host_server \<Rightarrow>
   (server_error, address) outcome \<times> raw_stream option" where
  "get_address h server =
     ask_enclave h (srv_cid server) GetPublicKey (address_result (h_points h) (h_raw_address h))"

section \<open>The signers\<close>

text \<open>
  The iterator chain of \<open>get_signers\<close> is lazy: each attestation goes through all of it before the
  next is looked at, and the first error ends it. \<open>None\<close> is an attestation that is filtered out.
\<close>

definition signer_of ::
  "'s attestation_ext \<Rightarrow> u32 \<Rightarrow> raw_attestation \<Rightarrow> (server_error, address option) outcome" where
  "signer_of aext version raw =
     (case verify_attestation aext (ra_attestation raw) of
        Inl _ \<Rightarrow> Ok None
      | Inr doc \<Rightarrow>
          and_then (expect ''No user data found in attestation'' (doc_user_data doc)) (\<lambda>ud.
            if ud = to_le_bytes version
            then
              and_then (expect ''No public key found in attestation'' (doc_public_key doc)) (\<lambda>pk.
                (case ethereum_address_from_sec1_bytes (addr_of_raw aext) pk of
                   Inl p \<Rightarrow> Panic p
                 | Inr None \<Rightarrow> Err FailedToConvertPublicKeyToAddress
                 | Inr (Some a) \<Rightarrow> Ok (Some a)))
            else Ok None))"

fun collect_signers ::
  "'s attestation_ext \<Rightarrow> u32 \<Rightarrow> raw_attestation list \<Rightarrow> (server_error, address list) outcome" where
  "collect_signers aext version [] = Ok []"
| "collect_signers aext version (raw # rs) =
     and_then (signer_of aext version raw) (\<lambda>a.
     and_then (collect_signers aext version rs) (\<lambda>as.
       Ok (case a of None \<Rightarrow> as | Some a \<Rightarrow> a # as)))"

definition get_signers ::
  "('stdin, 'pt, 'sig, 'rsig, 'chan) host_ext \<Rightarrow> 's attestation_ext \<Rightarrow> 's \<Rightarrow> u32 \<Rightarrow>
   (server_error, bytes) outcome" where
  "get_signers h aext store version =
     and_then (map_err FailedToGetAttestations (get_raw_attestations aext (h_production h) store))
       (\<lambda>all_attestations.
     and_then (collect_signers aext version all_attestations) (\<lambda>signers.
       (case serialize (h_signers h) signers of
          Inl _ \<Rightarrow> Panic ''failed to serialize signers''
        | Inr bs \<Rightarrow> Ok bs)))"

section \<open>Lemmas\<close>

text \<open>One question and its answer against a running enclave: the whole conversation.\<close>

lemma ask_enclave_talking:
  assumes "bincode_ok (h_requests h)" and "bincode_ok (h_responses h)"
    and "h_net h = enclave_network ext debug (h_requests h) (h_responses h) srv cid"
    and "encodable (h_requests h) m" and "m \<noteq> CloseSession"
    and "encodable (h_requests h) CloseSession"
    and "replies_of ext debug srv m = [r]" and "encodable (h_responses h) r"
  shows "\<exists>s. ask_enclave h cid m k = (k r, Some s) \<and> written s = wires (h_requests h) [m, CloseSession]"
proof -
  let ?talk = "talking ext debug (h_requests h) (h_responses h) srv"
  obtain hs where new: "host_stream_new (h_net h) cid ENCLAVE_PORT = Ok hs"
    using host_stream_new_enclave assms(3) by metis
  then have "?talk hs [] []" using talking_new assms(3) by metis
  then obtain hs1 where send: "host_send (h_requests h) hs m = (Ok (), hs1)" and "?talk hs1 [m] [r]"
    using talking_send [of ext debug "h_requests h" "h_responses h" srv hs "[]" "[]" m] assms by auto
  then obtain hs2 where recv: "host_recv (h_responses h) hs1 = (Ok r, hs2)" and "?talk hs2 [m] []"
    using talking_recv assms(1,2) by blast
  then obtain s where "host_drop (h_requests h) hs2 = Ok s"
      and "written s = wires (h_requests h) ([m] @ [CloseSession])"
    using talking_drop assms(6) by blast
  then show ?thesis by (simp add: ask_enclave_def leaving_def new send recv)
qed

lemma ask_enclave_errors:
  assumes "ask_enclave h cid m k = (Err e, socket)"
    and "\<And>r. k r = Err e \<Longrightarrow> P e"
    and "P FailedToConnectToEnclave" and "P FailedToSendRequestToEnclave"
    and "P FailedToReceiveResponseFromEnclave"
  shows "P e"
  using assms
  by (auto simp: ask_enclave_def leaving_def split: outcome.splits prod.splits)

text \<open>
  Adding 27 to a recovery id panics (with overflow checks) or wraps (without) exactly for the values
  above 228; the four recovery ids there are give 27 to 30 in both builds.
\<close>

lemma ethereum_recovery_id_bounds:
  "(panics (ethereum_recovery_id oc rid) \<longleftrightarrow> oc \<and> 228 < unat rid) \<and>
   (ethereum_recovery_id oc rid = Ok v \<longrightarrow> v = rid + 27 \<and> unat v = (unat rid + 27) mod 256) \<and>
   (unat rid \<le> 3 \<longrightarrow> (\<exists>v. ethereum_recovery_id oc rid = Ok v \<and> unat v \<in> {27..30}))"
proof -
  have "unat (rid + 27) = (unat rid + 27) mod 256" by (simp add: unat_word_ariths)
  then show ?thesis by (auto simp: ethereum_recovery_id_def)
qed

text \<open>An execution against a running enclave: what is sent, and what is made of the answer.\<close>

lemma execute_inner_run:
  assumes "bincode_ok (h_requests h)" and "bincode_ok (h_responses h)"
    and "h_net h = enclave_network ext debug (h_requests h) (h_responses h) srv cid"
    and "encodable (h_requests h) (Execute (rq_stdin rq) (rq_program rq) (rq_cycle_limit rq))"
    and "encodable (h_requests h) CloseSession"
    and "encodable (h_responses h)
      (join_execution ext (execute ext srv (rq_stdin rq) (rq_program rq) (rq_cycle_limit rq)))"
    and "execute_inner h cid rq = (res, socket)"
  shows "(\<exists>s. socket = Some s \<and> written s = wires (h_requests h)
      [Execute (rq_stdin rq) (rq_program rq) (rq_cycle_limit rq), CloseSession]) \<and>
    res = execution_result (h_overflow_checks h)
      (join_execution ext (execute ext srv (rq_stdin rq) (rq_program rq) (rq_cycle_limit rq)))"
proof -
  let ?m = "Execute (rq_stdin rq) (rq_program rq) (rq_cycle_limit rq)"
  let ?r = "join_execution ext (execute ext srv (rq_stdin rq) (rq_program rq) (rq_cycle_limit rq))"
  have "\<exists>s. ask_enclave h cid ?m (execution_result (h_overflow_checks h)) =
      (execution_result (h_overflow_checks h) ?r, Some s) \<and>
      written s = wires (h_requests h) [?m, CloseSession]"
    using assms by (intro ask_enclave_talking [where ext = ext and srv = srv and debug = debug]) auto
  then show ?thesis using assms(7) by (auto simp: execute_inner_def)
qed

text \<open>What \<open>/address\<close> reports in front of a running enclave is the address of its key.\<close>

lemma get_address_run:
  assumes "bincode_ok (h_requests h)" and "bincode_ok (h_responses h)"
    and "h_net h = enclave_network ext debug (h_requests h) (h_responses h) srv (srv_cid server)"
    and "encodable (h_requests h) GetPublicKey" and "encodable (h_requests h) CloseSession"
    and "encodable (h_responses h) (PublicKey (get_public_key ext srv))"
  shows "fst (get_address h server) =
    address_result (h_points h) (h_raw_address h) (PublicKey (get_public_key ext srv))"
  using ask_enclave_talking [OF assms(1-4) _ assms(5), where r = "PublicKey (get_public_key ext srv)"
      and k = "address_result (h_points h) (h_raw_address h)"] assms(6)
  by (auto simp: get_address_def)

lemma address_result_Ok:
  "address_result ops from_raw (PublicKey pt) = Ok a \<longleftrightarrow>
   ethereum_address_from_encoded_point ops from_raw pt = Inr (Some a)"
  by (auto split: sum.splits option.splits)

lemma authenticate_Ok:
  "authenticate h client request = Ok u \<longleftrightarrow>
   (h_production h \<longrightarrow>
      (\<exists>signer. h_recover h (rq_signature request) (rq_id request) = Some signer \<and>
         is_whitelisted (h_grpc h) client signer = Inr True))"
  by (auto simp: authenticate_def split: option.splits sum.splits)

lemma authenticate_Err:
  "authenticate h client request = Err e \<Longrightarrow> e = FailedToAuthenticateRequest \<and> h_production h"
  by (auto simp: authenticate_def split: if_splits option.splits sum.splits)

lemma authenticate_no_panic: "authenticate h client request \<noteq> Panic p"
  by (auto simp: authenticate_def split: option.splits sum.splits)

lemma signer_of_Some:
  "signer_of aext version raw = Ok (Some a) \<longleftrightarrow>
   (\<exists>doc pk. validate_doc aext (ra_attestation raw) = Inr doc \<and>
      doc_user_data doc = Some (to_le_bytes version) \<and> doc_public_key doc = Some pk \<and>
      length pk = 65 \<and> pk ! 0 = 0x04 \<and> addr_of_raw aext (drop 1 pk) = Inr a)"
  by (cases "validate_doc aext (ra_attestation raw)")
    (auto simp: signer_of_def verify_attestation_def and_then_eq_Ok address_case_Ok sec1_Some)

lemma listed_iff:
  "a \<in> set (case m of Ok (Some b) \<Rightarrow> [b] | _ \<Rightarrow> []) \<longleftrightarrow> m = Ok (Some a)"
  by (auto split: outcome.splits option.splits)

lemma collect_signers_Ok:
  "collect_signers aext version rs = Ok as \<longleftrightarrow>
   (\<forall>raw \<in> set rs. is_ok (signer_of aext version raw)) \<and>
   as = concat (map (\<lambda>raw. case signer_of aext version raw of Ok (Some a) \<Rightarrow> [a] | _ \<Rightarrow> []) rs)"
proof (induction rs arbitrary: as)
  case (Cons raw rs)
  then show ?case
    by (cases "signer_of aext version raw") (auto simp: and_then_eq_Ok split: option.splits)
qed auto

section \<open>A concrete host\<close>

text \<open>
  For concrete runs: a host in front of the concrete enclave. A request is the requester's signature
  (one byte, the address it recovers to; 0 recovers nothing), the program (one byte) and its input.
\<close>

definition toy_tee_requests :: "(bytes, u8) tee_request bincode" where
  "toy_tee_requests = \<lparr>
     serialize = (\<lambda>r. Inr (rq_signature r # rq_program r @ rq_stdin r)),
     deserialize = (\<lambda>bs. case bs of
         x # p # i \<Rightarrow> Inr \<lparr>rq_id = [1], rq_program = [p], rq_stdin = i, rq_cycle_limit = 100, rq_signature = x\<rparr>
       | _ \<Rightarrow> Inl ''short'')\<rparr>"

definition toy_events :: "bytes event_payload bincode" where
  "toy_events = \<lparr>
     serialize = (\<lambda>e. case e of
         Success r \<Rightarrow>
           (if length (tr_vkey r) = 32 \<and> length (tr_signature r) = 33
            then Inr (0 # tr_recovery_id r # tr_vkey r @ tr_signature r @ tr_public_values r)
            else Inl ''unsupported'')
       | EventError t \<Rightarrow> Inr (1 # map (\<lambda>c. of_nat (of_char c)) t)),
     deserialize = (\<lambda>bs. case bs of
         x # t \<Rightarrow>
           (if x = 1 then Inr (EventError (map (\<lambda>b. char_of (unat b)) t))
            else (case t of [] \<Rightarrow> Inl ''short'' | rid # u \<Rightarrow>
              Inr (Success \<lparr>tr_vkey = take 32 u, tr_public_values = drop 65 u,
                tr_signature = take 33 (drop 32 u), tr_recovery_id = rid\<rparr>)))
       | [] \<Rightarrow> Inl ''empty'')\<rparr>"

lemma char_of_byte [simp]: "char_of (unat (of_nat (of_char c) :: u8)) = c"
  by (simp add: unat_of_nat take_bit_nat_eq_self)

lemma toy_events_ok: "bincode_ok toy_events"
  by (auto simp: bincode_ok_def toy_events_def intro!: map_idI split: event_payload.splits if_splits)

definition toy_host :: "bool \<Rightarrow> (bytes, bytes, bytes, u8, endpoint) host_ext" where
  "toy_host production = \<lparr>
     h_net = enclave_network toy_ext False toy_request_codec toy_response_codec toy_server 10,
     h_requests = toy_request_codec, h_responses = toy_response_codec,
     h_tee_requests = toy_tee_requests, h_events = toy_events,
     h_signers = \<lparr>serialize = (\<lambda>as. Inr (map ucast as)), deserialize = (\<lambda>bs. Inr (map ucast bs))\<rparr>,
     h_hex = (\<lambda>bs. map (\<lambda>b. char_of (unat b)) bs),
     h_recover = (\<lambda>x m. if x = 0 then None else Some (ucast x)),
     h_grpc = toy_grpc, h_points = toy_points, h_raw_address = toy_raw_address,
     h_production = production, h_overflow_checks = True\<rparr>"

definition toy_request :: "(bytes, u8) tee_request" where
  "toy_request = \<lparr>rq_id = [1], rq_program = [2], rq_stdin = [5], rq_cycle_limit = 100, rq_signature = 7\<rparr>"

definition toy_host_server :: host_server where
  "toy_host_server = \<lparr>srv_cid = 10, srv_auth_client = auth_client_new ''https://rpc''\<rparr>"

lemma toy_host_simps [simp]:
  "h_requests (toy_host production) = toy_request_codec"
  "h_responses (toy_host production) = toy_response_codec"
  "h_net (toy_host production) =
     enclave_network toy_ext False toy_request_codec toy_response_codec toy_server 10"
  "h_production (toy_host production) = production"
  "h_overflow_checks (toy_host production)"
  "h_tee_requests (toy_host production) = toy_tee_requests"
  "h_grpc (toy_host production) = toy_grpc"
  "h_events (toy_host production) = toy_events"
  "h_points (toy_host production) = toy_points"
  "h_raw_address (toy_host production) = toy_raw_address"
  by (simp_all add: toy_host_def)

lemma toy_execution:
  "join_execution toy_ext (execute toy_ext toy_server [5] [2] 100) =
     SignedPublicValues (replicate 31 0 @ [2]) [5] (7 # replicate 31 0 @ [109]) 1"
  by (simp add: toy_eval to_le_bytes_def to_be_bytes_def Let_def sum_list_replicate)

lemma toy_execution_encodable:
  "encodable toy_request_codec (Execute [5] [2] 100)"
  "encodable toy_response_codec (join_execution toy_ext (execute toy_ext toy_server [5] [2] 100))"
  unfolding toy_execution by (simp_all add: toy_request_codec_def toy_response_codec_def wire_eval)

lemma toy_whitelisted: "is_whitelisted toy_grpc (auth_client_new ''https://rpc'') 7 = Inr True"
proof -
  have "last (address_bytes 7) = 7" by (simp add: address_bytes_def upt_rec)
  then show ?thesis
    by (simp add: is_whitelisted_def get_prover_client_def configure_endpoint_def toy_grpc_def
        auth_client_new_def starts_with_def Let_def)
qed

lemma toy_executed:
  "execute toy_ext toy_server [5] [2] 100 =
     Inr (SignedPublicValues (replicate 31 0 @ [2]) [5] (7 # replicate 31 0 @ [109]) 1)"
  using toy_execution execute_response [of toy_ext toy_server "[5]" "[2]" 100]
  by (auto simp: join_execution_def split: sum.splits)

lemma toy_execute_inner:
  "fst (execute_inner (toy_host True) 10 toy_request) =
     Ok \<lparr>tr_vkey = replicate 31 0 @ [2], tr_public_values = [5],
         tr_signature = 7 # replicate 31 0 @ [109], tr_recovery_id = 28\<rparr>"
proof -
  obtain res socket where run: "execute_inner (toy_host True) 10 toy_request = (res, socket)"
    by fastforce
  from execute_inner_run [OF _ _ _ _ _ _ run, of toy_ext False toy_server] show ?thesis
    using run toy_execution toy_execution_encodable toy_requests_encodable(3)
    by (simp add: toy_request_def ethereum_recovery_id_def)
qed

definition toy_unhex :: "string \<Rightarrow> bytes option" where
  "toy_unhex s = Some (map (\<lambda>c. of_nat (of_char c)) s)"

lemma toy_unhex_hex: "toy_unhex (h_hex (toy_host production) bs) = Some bs"
proof -
  have "of_nat (of_char (char_of (unat b) :: char)) = b" for b :: byte
    using unsigned_less [of b, where ?'a = nat] by simp
  then show ?thesis by (simp add: toy_unhex_def toy_host_def comp_def)
qed

section \<open>Properties\<close>

text \<open>
  C12. In front of a running enclave, \<open>execute_inner\<close> implements the enclave's sequential
  specification: it sends the request and then \<open>CloseSession\<close>, nothing else, and returns the
  enclave's answer to exactly this program, input and cycle limit: the signed outputs with 27 added
  to the recovery id, or the enclave's error. It never reports an unexpected response or a broken
  connection.
\<close>

theorem execute_inner_refines:
  assumes "bincode_ok (h_requests h)" and "bincode_ok (h_responses h)"
    and "h_net h = enclave_network ext debug (h_requests h) (h_responses h) srv cid"
    and "encodable (h_requests h) (Execute (rq_stdin rq) (rq_program rq) (rq_cycle_limit rq))"
    and "encodable (h_requests h) CloseSession"
    and "encodable (h_responses h)
      (join_execution ext (execute ext srv (rq_stdin rq) (rq_program rq) (rq_cycle_limit rq)))"
    and "execute_inner h cid rq = (res, socket)"
  shows "(\<exists>s. socket = Some s \<and> written s = wires (h_requests h)
      [Execute (rq_stdin rq) (rq_program rq) (rq_cycle_limit rq), CloseSession]) \<and>
    (case execute ext srv (rq_stdin rq) (rq_program rq) (rq_cycle_limit rq) of
       Inr (SignedPublicValues vkey pv sig rid) \<Rightarrow>
         res = and_then (ethereum_recovery_id (h_overflow_checks h) rid) (\<lambda>v.
           Ok \<lparr>tr_vkey = vkey, tr_public_values = pv, tr_signature = sig, tr_recovery_id = v\<rparr>)
     | Inr other \<Rightarrow> \<exists>e. other = Error e \<and> res = Err (EnclaveError e)
     | Inl panic \<Rightarrow>
         res = Err (EnclaveError (''Join error when executing program: '' @ join_error_display ext panic)))"
proof -
  let ?x = "execute ext srv (rq_stdin rq) (rq_program rq) (rq_cycle_limit rq)"
  from execute_inner_run [OF assms] show ?thesis
    using execute_response [of ext srv "rq_stdin rq" "rq_program rq" "rq_cycle_limit rq"]
    by (cases ?x) (auto simp: join_execution_def split: enclave_response.splits)
qed

theorem execute_inner_refines_witness:
  "fst (execute_inner (toy_host True) 10 toy_request) =
     Ok \<lparr>tr_vkey = replicate 31 0 @ [2], tr_public_values = [5],
         tr_signature = 7 # replicate 31 0 @ [109], tr_recovery_id = 28\<rparr>"
proof -
  obtain res socket where run: "execute_inner (toy_host True) 10 toy_request = (res, socket)"
    by fastforce
  note toy_executed
  with execute_inner_refines [OF _ _ _ _ _ _ run, of toy_ext False toy_server]
  show ?thesis
    using run toy_execution_encodable toy_requests_encodable(3)
    by (simp add: toy_request_def ethereum_recovery_id_def)
qed

text \<open>
  C11. The gate of \<open>/execute\<close>. A request gets past the handler exactly when it decodes and, in a
  production build, its signature over its id recovers an address the whitelist service answers for
  with yes; until then no connection to the enclave is made. The answer to any other request is
  400 (it does not decode) or 401 (production only), and the handler does not panic.
\<close>

theorem execute_handler_gate:
  "(is_ok (fst (execute_handler h server req)) \<longleftrightarrow>
     (\<exists>rq. deserialize (h_tee_requests h) req = Inr rq \<and>
        (h_production h \<longrightarrow>
          (\<exists>signer ep channel. h_recover h (rq_signature rq) (rq_id rq) = Some signer \<and>
             configure_endpoint (h_grpc h) (auth_url (srv_auth_client server)) = Inr ep \<and>
             connect_endpoint (h_grpc h) ep = Inr channel \<and>
             tee_whitelist_status (h_grpc h) channel (address_bytes signer) = Inr True)))) \<and>
   (\<not> is_ok (fst (execute_handler h server req)) \<longrightarrow>
     snd (execute_handler h server req) = None \<and>
     (\<exists>e. fst (execute_handler h server req) = Err e \<and>
        (fst (into_response e) = BAD_REQUEST \<or> fst (into_response e) = UNAUTHORIZED \<and> h_production h)))"
proof (cases "deserialize (h_tee_requests h) req")
  case (Inr rq)
  note iff = authenticate_Ok [of h "srv_auth_client server" rq "()", unfolded is_whitelisted_Inr]
  show ?thesis
  proof (cases "authenticate h (srv_auth_client server) rq")
    case (Ok u)
    with Inr iff show ?thesis by (auto simp: execute_handler_def split: prod.splits)
  next
    case (Err e)
    with Inr iff show ?thesis by (auto simp: execute_handler_def dest: authenticate_Err)
  qed (simp add: authenticate_no_panic)
qed (simp add: execute_handler_def)

theorem execute_handler_gate_witness:
  "is_ok (fst (execute_handler (toy_host True) toy_host_server [7, 2, 5])) \<and>
   snd (execute_handler (toy_host True) toy_host_server [0, 2, 5]) = None"
proof -
  have "\<exists>ep channel. configure_endpoint toy_grpc ''https://rpc'' = Inr ep \<and>
      connect_endpoint toy_grpc ep = Inr channel \<and>
      tee_whitelist_status toy_grpc channel (address_bytes 7) = Inr True"
    using toy_whitelisted by (simp add: is_whitelisted_Inr auth_client_new_def)
  then show ?thesis
    using execute_handler_gate [of "toy_host True" toy_host_server "[7, 2, 5]"]
      execute_handler_gate [of "toy_host True" toy_host_server "[0, 2, 5]"]
    by (simp add: toy_tee_requests_def toy_host_server_def auth_client_new_def toy_host_def)
qed

text \<open>
  C14. What the client of \<open>/execute\<close> reads. The errors of an accepted request do not become an HTTP
  status: in front of a running enclave the event, decoded by the client, is the signed outputs with
  27 added to the recovery id, or the text of the error behind \<open>Enclave error:\<close>, whether the enclave
  refused the request, the program failed, or the execution panicked. A cycle limit above 2^32 - 1
  is reported with both numbers, whatever the program is.
\<close>

theorem event_reports_execution:
  assumes "bincode_ok (h_requests h)" and "bincode_ok (h_responses h)" and "bincode_ok (h_events h)"
    and "\<And>bs. unhex (h_hex h bs) = Some bs"
    and "h_net h = enclave_network ext debug (h_requests h) (h_responses h) srv (srv_cid server)"
    and "encodable (h_requests h) (Execute (rq_stdin rq) (rq_program rq) (rq_cycle_limit rq))"
    and "encodable (h_requests h) CloseSession"
    and "encodable (h_responses h)
      (join_execution ext (execute ext srv (rq_stdin rq) (rq_program rq) (rq_cycle_limit rq)))"
    and "deserialize (h_tee_requests h) req = Inr rq"
    and "fst (execute_handler h server req) = Ok (Ok event_data)"
  shows "(case execute ext srv (rq_stdin rq) (rq_program rq) (rq_cycle_limit rq) of
       Inr (SignedPublicValues vkey pv sig rid) \<Rightarrow>
         event_read (h_events h) unhex event_data =
           Some (Success \<lparr>tr_vkey = vkey, tr_public_values = pv, tr_signature = sig, tr_recovery_id = rid + 27\<rparr>)
     | Inr other \<Rightarrow> \<exists>e. other = Error e \<and>
         event_read (h_events h) unhex event_data = Some (EventError (''Enclave error: '' @ e))
     | Inl p \<Rightarrow>
         event_read (h_events h) unhex event_data =
           Some (EventError (''Enclave error: Join error when executing program: '' @ join_error_display ext p))) \<and>
    (rq_cycle_limit rq > 4294967295 \<longrightarrow>
       event_read (h_events h) unhex event_data = Some (EventError (''Enclave error: Cycle limit is too high: '' @
         show_nat (unat (rq_cycle_limit rq)) @ '', max: 4294967295'')))"
proof -
  let ?x = "execute ext srv (rq_stdin rq) (rq_program rq) (rq_cycle_limit rq)"
  let ?read = "event_read (h_events h) unhex event_data"
  obtain res socket where run: "execute_inner h (srv_cid server) rq = (res, socket)" by fastforce
  have res: "res = execution_result (h_overflow_checks h) (join_execution ext ?x)"
    using execute_inner_run [OF assms(1,2,5-8) run] by simp
  have "result_to_event (h_events h) (h_hex h) res = Ok event_data"
    using assms(9,10) run by (auto simp: execute_handler_def split: outcome.splits)
  then obtain p where p: "result_to_event_payload res = Ok p" and "?read = Some p"
    using event_read_result [OF assms(3,4)] by blast
  then have main: "case ?x of
       Inr (SignedPublicValues vkey pv sig rid) \<Rightarrow>
         ?read = Some (Success \<lparr>tr_vkey = vkey, tr_public_values = pv, tr_signature = sig, tr_recovery_id = rid + 27\<rparr>)
     | Inr other \<Rightarrow> \<exists>e. other = Error e \<and> ?read = Some (EventError (''Enclave error: '' @ e))
     | Inl p \<Rightarrow>
         ?read = Some (EventError (''Enclave error: Join error when executing program: '' @ join_error_display ext p))"
    using res execute_response [of ext srv "rq_stdin rq" "rq_program rq" "rq_cycle_limit rq"]
    by (cases ?x) (auto simp: join_execution_def ethereum_recovery_id_def split: enclave_response.splits if_splits)
  then show ?thesis by (auto simp: execute_over_limit)
qed

theorem event_reports_execution_witness:
  "\<exists>event_data. fst (execute_handler (toy_host True) toy_host_server [7, 2, 5]) = Ok (Ok event_data) \<and>
     event_read toy_events toy_unhex event_data =
       Some (Success \<lparr>tr_vkey = replicate 31 0 @ [2], tr_public_values = [5],
         tr_signature = 7 # replicate 31 0 @ [109], tr_recovery_id = 28\<rparr>)"
proof -
  let ?h = "toy_host True"
  have rq: "deserialize (h_tee_requests ?h) [7, 2, 5] = Inr toy_request"
    by (simp add: toy_tee_requests_def toy_request_def)
  have auth: "authenticate ?h (srv_auth_client toy_host_server) toy_request = Ok ()"
    using toy_whitelisted unfolding authenticate_Ok
    by (simp add: toy_host_def toy_request_def toy_host_server_def)
  obtain socket where "execute_inner ?h (srv_cid toy_host_server) toy_request =
      (Ok \<lparr>tr_vkey = replicate 31 0 @ [2], tr_public_values = [5],
         tr_signature = 7 # replicate 31 0 @ [109], tr_recovery_id = 28\<rparr>, socket)"
    using toy_execute_inner by (cases "execute_inner ?h 10 toy_request") (simp add: toy_host_server_def)
  then have "\<exists>event_data. fst (execute_handler ?h toy_host_server [7, 2, 5]) = Ok (Ok event_data)"
    using rq auth
    by (simp add: execute_handler_def result_to_event_def event_payload_to_event_def toy_events_def)
  then obtain event_data where run: "fst (execute_handler ?h toy_host_server [7, 2, 5]) = Ok (Ok event_data)" ..
  have "execute toy_ext toy_server [5] [2] 100 =
      Inr (SignedPublicValues (replicate 31 0 @ [2]) [5] (7 # replicate 31 0 @ [109]) 1)"
    by (rule toy_executed)
  with event_reports_execution [OF _ _ _ toy_unhex_hex _ _ _ _ rq run, of toy_ext False toy_server]
  show ?thesis
    using run toy_execution_encodable toy_requests_encodable(3) toy_events_ok
    by (simp add: toy_request_def toy_host_server_def)
qed

text \<open>
  C36. \<open>/signers\<close> lists, in the order of the attestations, exactly the addresses of the keys in the
  documents that validate and carry the running version; a document that does not validate or is of
  another version is skipped. (The measurement is not looked at.) One valid document of this version
  with a key that is no uncompressed point makes the whole request fail.
\<close>

theorem get_signers_lists:
  assumes "get_signers h aext store version = Ok bs"
  shows "\<exists>raws as. get_raw_attestations aext (h_production h) store = Ok raws \<and>
    serialize (h_signers h) as = Inr bs \<and>
    as = concat (map (\<lambda>raw. case signer_of aext version raw of Ok (Some a) \<Rightarrow> [a] | _ \<Rightarrow> []) raws) \<and>
    (\<forall>a. a \<in> set as \<longleftrightarrow> (\<exists>raw doc pk. raw \<in> set raws \<and>
       validate_doc aext (ra_attestation raw) = Inr doc \<and>
       doc_user_data doc = Some (to_le_bytes version) \<and> doc_public_key doc = Some pk \<and>
       length pk = 65 \<and> pk ! 0 = 0x04 \<and> addr_of_raw aext (drop 1 pk) = Inr a)) \<and>
    (\<forall>raw doc. raw \<in> set raws \<and> validate_doc aext (ra_attestation raw) = Inr doc \<longrightarrow>
       doc_user_data doc \<noteq> None)"
proof -
  obtain raws as where raws: "get_raw_attestations aext (h_production h) store = Ok raws"
    and as: "collect_signers aext version raws = Ok as" and bs: "serialize (h_signers h) as = Inr bs"
    using assms by (auto simp: get_signers_def and_then_eq_Ok unwrapped_Ok)
  have eq: "as = concat (map (\<lambda>raw. case signer_of aext version raw of Ok (Some a) \<Rightarrow> [a] | _ \<Rightarrow> []) raws)"
    using as by (simp add: collect_signers_Ok)
  have "a \<in> set as \<longleftrightarrow> (\<exists>raw \<in> set raws. signer_of aext version raw = Ok (Some a))" for a
    by (simp add: eq listed_iff eq_commute [of "Ok (Some a)"])
  moreover have "doc_user_data doc \<noteq> None"
    if "raw \<in> set raws" "validate_doc aext (ra_attestation raw) = Inr doc" for raw doc
  proof -
    have "is_ok (signer_of aext version raw)" using as that(1) by (simp add: collect_signers_Ok)
    with that(2) show ?thesis by (cases "doc_user_data doc") (simp_all add: signer_of_def verify_attestation_def)
  qed
  ultimately show ?thesis using raws bs eq by (auto simp: signer_of_Some)
qed

theorem get_signers_lists_witness:
  "\<exists>raws as. get_raw_attestations toy_aext True [(''x'', stored_doc)] = Ok raws \<and>
     serialize (h_signers (toy_host True)) as = Inr [7] \<and>
     (\<forall>a. a \<in> set as \<longleftrightarrow> (\<exists>raw doc pk. raw \<in> set raws \<and>
       validate_doc toy_aext (ra_attestation raw) = Inr doc \<and>
       doc_user_data doc = Some (to_le_bytes 1) \<and> doc_public_key doc = Some pk \<and>
       length pk = 65 \<and> pk ! 0 = 0x04 \<and> addr_of_raw toy_aext (drop 1 pk) = Inr a))"
proof -
  let ?raw = "\<lparr>ra_address = 1, ra_attestation = stored_doc\<rparr>"
  have "get_raw_attestations toy_aext True [(''x'', stored_doc)] = Ok [?raw]"
    by (simp add: get_raw_attestations_def fetch_object_def toy_aext_def of_char_def)
  moreover have "signer_of toy_aext 1 ?raw = Ok (Some 7)"
    unfolding signer_of_Some
    by (simp add: toy_aext_def stored_doc_def to_le_bytes_def to_be_bytes_def toy_address_7)
  ultimately have "get_signers (toy_host True) toy_aext [(''x'', stored_doc)] 1 = Ok [7]"
    by (simp add: get_signers_def toy_host_def)
  from get_signers_lists [OF this] show ?thesis
    by (elim exE conjE) (intro exI conjI, simp_all only: toy_host_simps)
qed

end
