(* ===== verification/Host_Concurrency.thy ===== *)
theory Host_Concurrency
  imports Host_Server
begin

text \<open>
  The requests of the host at once: every \<open>/execute\<close> request is a future that takes
  \<open>execution_mutex\<close> before it connects to the enclave and keeps it until it returns
  (\<open>host/bin/server.rs\<close>, \<open>execute_inner\<close>; the mutex is a field of \<open>Server\<close> in
  \<open>host/src/server.rs\<close>). The mutex is tokio's, whose documented contract is that waiters get the
  lock in the order they asked for it and that a waiter that is dropped loses its place. A client
  that goes away drops the future of its request, wherever it is.
\<close>

section \<open>The state\<close>

datatype 'sig exec_phase =
    Idle
  | Queued
  | is_Running: Running
  | Returned "(server_error, 'sig tee_response) outcome"
  | Dropped

text \<open>
  \<open>asked\<close>, \<open>admitted\<close> and \<open>withdrawn\<close> are history: who asked for the lock, who got it, and who was
  dropped before getting it. The code has no such fields.
\<close>

record 'sig host_sys =
  execution_mutex :: "nat option"
  lock_queue :: "nat list"
  req_phase :: "nat \<Rightarrow> 'sig exec_phase"
  asked :: "nat list"
  admitted :: "nat list"
  withdrawn :: "nat set"

definition host_start :: "'sig host_sys" where
  "host_start = \<lparr>execution_mutex = None, lock_queue = [], req_phase = (\<lambda>_. Idle), asked = [],
     admitted = [], withdrawn = {}\<rparr>"

text \<open>\<open>lock()\<close>: taken at once if it is free, otherwise at the end of the queue.\<close>

definition mutex_lock :: "nat \<Rightarrow> 'sig host_sys \<Rightarrow> 'sig host_sys" where
  "mutex_lock i s =
     (case execution_mutex s of
        None \<Rightarrow> s\<lparr>execution_mutex := Some i, req_phase := (req_phase s)(i := Running),
                  asked := asked s @ [i], admitted := admitted s @ [i]\<rparr>
      | Some _ \<Rightarrow> s\<lparr>lock_queue := lock_queue s @ [i], req_phase := (req_phase s)(i := Queued),
                    asked := asked s @ [i]\<rparr>)"

text \<open>The drop of the guard hands the lock to the first in the queue.\<close>

definition mutex_release :: "'sig host_sys \<Rightarrow> 'sig host_sys" where
  "mutex_release s =
     (case lock_queue s of
        [] \<Rightarrow> s\<lparr>execution_mutex := None\<rparr>
      | k # ks \<Rightarrow> s\<lparr>execution_mutex := Some k, lock_queue := ks,
                    req_phase := (req_phase s)(k := Running), admitted := admitted s @ [k]\<rparr>)"

text \<open>Request \<open>i\<close> leaves its critical section in phase \<open>p\<close>.\<close>

definition leave_as :: "nat \<Rightarrow> 'sig exec_phase \<Rightarrow> 'sig host_sys \<Rightarrow> 'sig host_sys" where
  "leave_as i p s = mutex_release (s\<lparr>req_phase := (req_phase s)(i := p)\<rparr>)"

text \<open>A waiter that goes away: its place in the queue is closed up, the others keep their order.\<close>

definition withdraw :: "nat \<Rightarrow> 'sig host_sys \<Rightarrow> 'sig host_sys" where
  "withdraw i s = s\<lparr>lock_queue := removeAll i (lock_queue s), req_phase := (req_phase s)(i := Dropped),
     withdrawn := insert i (withdrawn s)\<rparr>"

section \<open>The steps\<close>

text \<open>\<open>results i r\<close>: \<open>r\<close> is a result that \<open>execute_inner\<close> can return for request \<open>i\<close>.\<close>

inductive host_step ::
  "(nat \<Rightarrow> (server_error, 'sig tee_response) outcome \<Rightarrow> bool) \<Rightarrow> 'sig host_sys \<Rightarrow> 'sig host_sys \<Rightarrow> bool"
  for results where
  ask: "req_phase s i = Idle \<Longrightarrow> host_step results s (mutex_lock i s)"
| return: "req_phase s i = Running \<Longrightarrow> results i r \<Longrightarrow> host_step results s (leave_as i (Returned r) s)"
| drop_running: "req_phase s i = Running \<Longrightarrow> host_step results s (leave_as i Dropped s)"
| drop_queued: "req_phase s i = Queued \<Longrightarrow> host_step results s (withdraw i s)"

text \<open>
  What a request returns by itself: \<open>execute_inner\<close> on a network that answers each request the same
  way whatever the others do. (\<open>Host_Enclave\<close> puts the enclave of \<open>Enclave_Concurrency\<close> in its place.)
\<close>

definition inner_results ::
  "('stdin, 'pt, 'sig, 'rsig, 'chan) host_ext \<Rightarrow> u32 \<Rightarrow> (nat \<Rightarrow> ('stdin, 'rsig) tee_request) \<Rightarrow>
   nat \<Rightarrow> (server_error, 'sig tee_response) outcome \<Rightarrow> bool" where
  "inner_results h cid reqs i r \<longleftrightarrow> r = fst (execute_inner h cid (reqs i))"

section \<open>The invariant\<close>

definition running :: "'sig host_sys \<Rightarrow> nat \<Rightarrow> bool" where
  "running s i \<longleftrightarrow> is_Running (req_phase s i)"

text \<open>What the phase of a request says about it, request by request; the rest is about the history.\<close>

definition phase_ok ::
  "(nat \<Rightarrow> (server_error, 'sig tee_response) outcome \<Rightarrow> bool) \<Rightarrow> 'sig host_sys \<Rightarrow> nat \<Rightarrow> bool" where
  "phase_ok results s i \<longleftrightarrow>
     (execution_mutex s = Some i \<longleftrightarrow> req_phase s i = Running) \<and>
     (i \<in> set (lock_queue s) \<longleftrightarrow> req_phase s i = Queued) \<and>
     (i \<in> set (asked s) \<longleftrightarrow> req_phase s i \<noteq> Idle) \<and>
     (i \<in> withdrawn s \<longrightarrow> req_phase s i = Dropped) \<and>
     (case req_phase s i of Returned r \<Rightarrow> results i r | _ \<Rightarrow> True)"

definition history_ok :: "'sig host_sys \<Rightarrow> bool" where
  "history_ok s \<longleftrightarrow>
     distinct (asked s) \<and> (execution_mutex s = None \<longrightarrow> lock_queue s = []) \<and>
     admitted s @ lock_queue s = filter (\<lambda>i. i \<notin> withdrawn s) (asked s)"

definition host_inv ::
  "(nat \<Rightarrow> (server_error, 'sig tee_response) outcome \<Rightarrow> bool) \<Rightarrow> 'sig host_sys \<Rightarrow> bool" where
  "host_inv results s \<longleftrightarrow> (\<forall>i. phase_ok results s i) \<and> history_ok s"

lemma host_invD:
  assumes "host_inv results s"
  shows "execution_mutex s = Some i \<longleftrightarrow> req_phase s i = Running"
    and "i \<in> set (lock_queue s) \<longleftrightarrow> req_phase s i = Queued"
    and "i \<in> set (asked s) \<longleftrightarrow> req_phase s i \<noteq> Idle"
    and "i \<in> withdrawn s \<Longrightarrow> req_phase s i = Dropped"
    and "req_phase s i = Returned r \<Longrightarrow> results i r"
  using assms by (auto simp: host_inv_def phase_ok_def split: exec_phase.splits)

lemma running_iff: "host_inv results s \<Longrightarrow> running s i \<longleftrightarrow> execution_mutex s = Some i"
  by (simp add: host_invD(1) running_def is_Running_def)

lemma host_inv_start: "host_inv results host_start"
  by (simp add: host_inv_def phase_ok_def history_ok_def host_start_def)

text \<open>Nobody is in the queue twice, and nobody who was admitted is still in it.\<close>

lemma history_distinct: "history_ok s \<Longrightarrow> distinct (admitted s @ lock_queue s)"
  unfolding history_ok_def by (metis distinct_filter)

lemma host_inv_lock:
  assumes inv: "host_inv results s" and idle: "req_phase s i = Idle"
  shows "host_inv results (mutex_lock i s)"
proof -
  have i: "i \<notin> withdrawn s" "i \<notin> set (asked s)"
    using host_invD [OF inv, of i] idle by auto
  have "phase_ok results (mutex_lock i s) j" for j
    using host_invD [OF inv, of j] i idle
    by (cases "execution_mutex s"; cases "j = i")
      (auto simp: phase_ok_def mutex_lock_def split: exec_phase.split)
  moreover have "history_ok (mutex_lock i s)"
    using inv i by (auto simp: host_inv_def history_ok_def mutex_lock_def split: option.split)
  ultimately show ?thesis by (simp add: host_inv_def)
qed

lemma host_inv_leave:
  assumes inv: "host_inv results s" and ph: "req_phase s i = Running"
    and p: "p = Dropped \<or> (\<exists>r. p = Returned r \<and> results i r)"
  shows "host_inv results (leave_as i p s)"
proof -
  have d: "distinct (lock_queue s)"
    using inv history_distinct [of s] by (simp add: host_inv_def)
  have "phase_ok results (leave_as i p s) j" for j
    using host_invD [OF inv, of j] host_invD [OF inv, of i] ph p d
    by (cases "lock_queue s"; cases "j = i")
      (auto simp: phase_ok_def leave_as_def mutex_release_def split: exec_phase.split)
  moreover have "history_ok (leave_as i p s)"
    using inv by (auto simp: host_inv_def history_ok_def leave_as_def mutex_release_def split: list.split)
  ultimately show ?thesis by (simp add: host_inv_def)
qed

lemma host_inv_withdraw:
  assumes inv: "host_inv results s" and ph: "req_phase s i = Queued"
  shows "host_inv results (withdraw i s)"
proof -
  have "history_ok s" and i: "i \<in> set (lock_queue s)"
    using inv host_invD(2) [OF inv] ph by (simp_all add: host_inv_def)
  then have eq: "admitted s @ lock_queue s = filter (\<lambda>j. j \<notin> withdrawn s) (asked s)"
    by (simp add: history_ok_def)
  have "i \<notin> set (admitted s)"
    using history_distinct [OF \<open>history_ok s\<close>] i by auto
  then have "admitted s @ removeAll i (lock_queue s) = removeAll i (admitted s @ lock_queue s)"
    by simp
  also have "\<dots> = filter (\<lambda>j. j \<notin> insert i (withdrawn s)) (asked s)"
    unfolding eq by (auto simp: removeAll_filter_not_eq intro: filter_cong)
  finally have "history_ok (withdraw i s)"
    using \<open>history_ok s\<close> by (auto simp: history_ok_def withdraw_def)
  moreover have "phase_ok results (withdraw i s) j" for j
    using host_invD [OF inv, of j] host_invD [OF inv, of i] ph
    by (cases "j = i") (auto simp: phase_ok_def withdraw_def split: exec_phase.split)
  ultimately show ?thesis by (simp add: host_inv_def)
qed

lemma host_inv_step:
  assumes "host_inv results s" and "host_step results s t"
  shows "host_inv results t"
  using assms(2,1)
  by (induction rule: host_step.induct)
    (auto intro: host_inv_lock host_inv_leave host_inv_withdraw)

text \<open>The mutex and the executions it guards keep the contract of a mutex and its critical section.\<close>

interpretation host: guarded_system "\<lambda>s. s = host_start" "host_step results"
    "host_inv results" execution_mutex running
  for results
  by unfold_locales (auto simp: host_inv_start running_iff elim: host_inv_step)

lemmas host_reach = host.reach_inv [OF refl]

section \<open>The queue moves\<close>

text \<open>When the one in front returns, everybody behind moves up one place.\<close>

lemma queue_moves:
  assumes inv: "host_inv results s" and q: "lock_queue s = k # ks" and res: "\<forall>i. \<exists>r. results i r"
  shows "\<exists>t. host_step results s t \<and> execution_mutex t = Some k \<and> lock_queue t = ks"
proof -
  obtain j where "execution_mutex s = Some j"
    using inv q by (auto simp: host_inv_def history_ok_def)
  then have "req_phase s j = Running" by (simp add: host_invD(1) [OF inv])
  moreover obtain r where "results j r" using res by blast
  ultimately have "host_step results s (leave_as j (Returned r) s)" by (rule host_step.return)
  then show ?thesis using q by (auto simp: leave_as_def mutex_release_def)
qed

lemma queued_runs:
  "host_inv results s \<Longrightarrow> lock_queue s = ks @ i # ls \<Longrightarrow> \<forall>i. \<exists>r. results i r \<Longrightarrow>
   \<exists>t. rtranclp (host_step results) s t \<and> execution_mutex t = Some i \<and> host_inv results t"
proof (induction ks arbitrary: s)
  case Nil
  then obtain t where t: "host_step results s t" "execution_mutex t = Some i"
    using queue_moves [OF Nil.prems(1), of i ls] Nil.prems(3) by auto
  have "host_inv results t" by (rule host_inv_step [OF Nil.prems(1) t(1)])
  with t show ?case by blast
next
  case (Cons k ks)
  then obtain t where t: "host_step results s t" "lock_queue t = ks @ i # ls"
    using queue_moves [OF Cons.prems(1), of k "ks @ i # ls"] Cons.prems(3) by auto
  have "host_inv results t" by (rule host_inv_step [OF Cons.prems(1) t(1)])
  from Cons.IH [OF this t(2) Cons.prems(3)] obtain u where "rtranclp (host_step results) t u"
      "execution_mutex u = Some i" "host_inv results u"
    by blast
  with t(1) show ?case by (blast intro: converse_rtranclp_into_rtranclp)
qed

text \<open>Three requests for the witnesses: 0 runs, 1 has gone away, 2 is waiting.\<close>

definition toy_reqs :: "nat \<Rightarrow> (bytes, u8) tee_request" where
  "toy_reqs = (\<lambda>_. toy_request)"

abbreviation toy_step :: "bytes host_sys \<Rightarrow> bytes host_sys \<Rightarrow> bool" where
  "toy_step \<equiv> host_step (inner_results (toy_host True) 10 toy_reqs)"

definition contended :: "bytes host_sys" where
  "contended = withdraw 1 (mutex_lock 2 (mutex_lock 1 (mutex_lock 0 host_start)))"

lemmas contended_eval = contended_def withdraw_def mutex_lock_def host_start_def

lemma contended_reachable: "rtranclp toy_step host_start contended"
proof -
  let ?s1 = "mutex_lock 0 host_start :: bytes host_sys"
  let ?s2 = "mutex_lock 1 ?s1"
  let ?s3 = "mutex_lock 2 ?s2"
  have "toy_step host_start ?s1" by (rule host_step.ask) (simp add: contended_eval)
  moreover have "toy_step ?s1 ?s2" by (rule host_step.ask) (simp add: contended_eval)
  moreover have "toy_step ?s2 ?s3" by (rule host_step.ask) (simp add: contended_eval)
  moreover have "toy_step ?s3 contended"
    unfolding contended_def by (rule host_step.drop_queued) (simp add: contended_eval)
  ultimately show ?thesis by (meson rtranclp.rtrancl_into_rtrancl rtranclp.rtrancl_refl)
qed

section \<open>Properties\<close>

text \<open>
  The host runs one execution at a time: in every reachable state at most one request is
  connected to the enclave with an execution, however many are in flight and whenever their clients
  go away.
\<close>

lemma host_one_execution_at_a_time:
  assumes "rtranclp (host_step (inner_results h cid reqs)) host_start s" and "running s i" and "running s j"
  shows "i = j"
  using host.mutual_exclusion [OF refl assms] .

lemma host_one_execution_at_a_time_witness: "{j. running contended j} = {0}"
proof -
  have "running contended 0" by (simp add: running_def contended_eval)
  then show ?thesis using host_one_execution_at_a_time [OF contended_reachable] by auto
qed



text \<open>
  No request is stuck in the queue: from every reachable state in which it waits, a run of the
  requests in front of it brings it to its turn, and from there it returns its own result.
\<close>

lemma host_queued_request_is_served:
  assumes "rtranclp (host_step (inner_results h cid reqs)) host_start s" and "req_phase s i = Queued"
  shows "\<exists>t. rtranclp (host_step (inner_results h cid reqs)) s t \<and>
    req_phase t i = Returned (fst (execute_inner h cid (reqs i)))"
proof -
  let ?res = "inner_results h cid reqs"
  have inv: "host_inv ?res s" by (rule host_reach [OF assms(1)])
  then obtain ks ls where "lock_queue s = ks @ i # ls"
    using assms(2) host_invD(2) [OF inv] by (meson split_list)
  then obtain t where t: "rtranclp (host_step (inner_results h cid reqs)) s t" "execution_mutex t = Some i"
      "host_inv ?res t"
    using queued_runs [OF inv, of ks i ls] by (auto simp: inner_results_def)
  let ?r = "Returned (fst (execute_inner h cid (reqs i)))"
  have "req_phase t i = Running" using t by (simp add: host_invD(1) [OF t(3), symmetric])
  then have "host_step (inner_results h cid reqs) t (leave_as i ?r t)"
    by (rule host_step.return) (simp add: inner_results_def)
  moreover have "i \<notin> set (lock_queue t)"
    using \<open>req_phase t i = Running\<close> by (simp add: host_invD(2) [OF t(3)])
  then have "req_phase (leave_as i ?r t) i = ?r"
    by (auto simp: leave_as_def mutex_release_def split: list.split)
  ultimately show ?thesis using t(1) by (meson rtranclp.rtrancl_into_rtrancl)
qed

lemma host_queued_request_is_served_witness:
  "\<exists>t. rtranclp toy_step contended t \<and>
     req_phase t 2 = Returned (fst (execute_inner (toy_host True) 10 toy_request))"
  using host_queued_request_is_served [OF contended_reachable, of 2]
  by (simp add: contended_eval toy_reqs_def)

end
