(* ===== verification/Host_Enclave.thy ===== *)
theory Host_Enclave
  imports Enclave_Concurrency Host_Concurrency
begin

text \<open>
  The two concurrent parts together: the \<open>/execute\<close> requests of the host (\<open>host/bin/server.rs\<close>),
  which take \<open>execution_mutex\<close> one after the other, and the connections of the enclave
  (\<open>enclave/src/server.rs\<close>), which interleave around \<open>execution_guard\<close>. The host's part of a request
  is taken apart here into its connection, its request, its answer and the \<open>CloseSession\<close> that the
  drop of its stream leaves to a task of its own; each of them can fail, and the client can go away
  before any of them.
\<close>

section \<open>The steps of the system\<close>

record ('key, 'stdin, 'pt, 'sig) system =
  on_host :: "'sig host_sys"
  in_enclave :: "('key, 'stdin, 'pt, 'sig) enclave_sys"

text \<open>
  Request \<open>i\<close> of the host has connection \<open>link i\<close>. The other connections belong to \<open>/address\<close> and to
  the attestation task, which take no mutex.
\<close>

definition link :: "nat \<Rightarrow> nat" where
  "link i = 2 * i"

definition asked_of_enclave :: "('stdin, 'rsig) tee_request \<Rightarrow> 'stdin enclave_request" where
  "asked_of_enclave rq = Execute (rq_stdin rq) (rq_program rq) (rq_cycle_limit rq)"

text \<open>A message that has arrived at the end of a connection in the enclave.\<close>

definition deliver ::
  "nat \<Rightarrow> 'stdin enclave_request \<Rightarrow> ('key, 'stdin, 'pt, 'sig) enclave_sys \<Rightarrow>
   ('key, 'stdin, 'pt, 'sig) enclave_sys" where
  "deliver k m e =
     (case conns e k of
        None \<Rightarrow> e
      | Some c \<Rightarrow> set_conn k (c\<lparr>arrived := arrived c @ [m], inbox := inbox c @ [m]\<rparr>) e)"

text \<open>The handler is over: its guard and its stream are dropped.\<close>

fun has_left :: "'sig exec_phase \<Rightarrow> bool" where
  "has_left (Returned r) \<longleftrightarrow> True"
| "has_left Dropped \<longleftrightarrow> True"
| "has_left _ \<longleftrightarrow> False"

definition system_start :: "'key enclave_server \<Rightarrow> ('key, 'stdin, 'pt, 'sig) system" where
  "system_start srv = \<lparr>on_host = host_start, in_enclave = enclave_start srv\<rparr>"

text \<open>
  \<open>oc\<close> is the overflow check of the host's build, \<open>reqs i\<close> the request that future \<open>i\<close> carries. A write
  of the request that is cut off, by its failure or because the client goes away, leaves a part of it on
  the connection, and the \<open>CloseSession\<close> of the drop comes after that part: the enclave may take the
  bytes for another message, and rule \<open>cut\<close> lets it be any. The last rule is a step of the enclave's own
  tasks, or of a connection that is not one of these requests.
\<close>

inductive system_step ::
  "('key, 'stdin, 'vk, 'pt, 'sig) enclave_ext \<Rightarrow> bool \<Rightarrow> bool \<Rightarrow> (nat \<Rightarrow> ('stdin, 'rsig) tee_request) \<Rightarrow>
   ('key, 'stdin, 'pt, 'sig) system \<Rightarrow> ('key, 'stdin, 'pt, 'sig) system \<Rightarrow> bool"
  for ext debug oc reqs where
  ask: "req_phase (on_host s) i = Idle \<Longrightarrow>
     system_step ext debug oc reqs s (s\<lparr>on_host := mutex_lock i (on_host s)\<rparr>)"
| connect: "req_phase (on_host s) i = Running \<Longrightarrow> conns (in_enclave s) (link i) = None \<Longrightarrow>
     system_step ext debug oc reqs s (s\<lparr>in_enclave := set_conn (link i) new_conn (in_enclave s)\<rparr>)"
| connect_failed: "req_phase (on_host s) i = Running \<Longrightarrow> conns (in_enclave s) (link i) = None \<Longrightarrow>
     system_step ext debug oc reqs s
       (s\<lparr>on_host := leave_as i (Returned (Err FailedToConnectToEnclave)) (on_host s)\<rparr>)"
| send: "req_phase (on_host s) i = Running \<Longrightarrow> conns (in_enclave s) (link i) = Some c \<Longrightarrow> arrived c = [] \<Longrightarrow>
     system_step ext debug oc reqs s
       (s\<lparr>in_enclave := deliver (link i) (asked_of_enclave (reqs i)) (in_enclave s)\<rparr>)"
| send_failed: "req_phase (on_host s) i = Running \<Longrightarrow> conns (in_enclave s) (link i) = Some c \<Longrightarrow>
     arrived c = [] \<Longrightarrow>
     system_step ext debug oc reqs s
       (s\<lparr>on_host := leave_as i (Returned (Err FailedToSendRequestToEnclave)) (on_host s)\<rparr>)"
| receive: "req_phase (on_host s) i = Running \<Longrightarrow> conns (in_enclave s) (link i) = Some c \<Longrightarrow>
     replies c = r # rs \<Longrightarrow>
     system_step ext debug oc reqs s
       (s\<lparr>on_host := leave_as i (Returned (execution_result oc r)) (on_host s)\<rparr>)"
| receive_failed: "req_phase (on_host s) i = Running \<Longrightarrow> conns (in_enclave s) (link i) = Some c \<Longrightarrow>
     arrived c \<noteq> [] \<Longrightarrow>
     system_step ext debug oc reqs s
       (s\<lparr>on_host := leave_as i (Returned (Err FailedToReceiveResponseFromEnclave)) (on_host s)\<rparr>)"
| go_away: "req_phase (on_host s) i = Running \<Longrightarrow>
     system_step ext debug oc reqs s (s\<lparr>on_host := leave_as i Dropped (on_host s)\<rparr>)"
| give_up: "req_phase (on_host s) i = Queued \<Longrightarrow>
     system_step ext debug oc reqs s (s\<lparr>on_host := withdraw i (on_host s)\<rparr>)"
| close: "has_left (req_phase (on_host s) i) \<Longrightarrow> conns (in_enclave s) (link i) = Some c \<Longrightarrow>
     CloseSession \<notin> set (arrived c) \<Longrightarrow>
     system_step ext debug oc reqs s (s\<lparr>in_enclave := deliver (link i) CloseSession (in_enclave s)\<rparr>)"
| cut: "has_left (req_phase (on_host s) i) \<Longrightarrow> conns (in_enclave s) (link i) = Some c \<Longrightarrow>
     arrived c = [] \<Longrightarrow>
     system_step ext debug oc reqs s (s\<lparr>in_enclave := deliver (link i) m (in_enclave s)\<rparr>)"
| enclave: "enclave_step ext debug (in_enclave s) e \<Longrightarrow>
     \<forall>i. map_option arrived (conns e (link i)) = map_option arrived (conns (in_enclave s) (link i)) \<Longrightarrow>
     system_step ext debug oc reqs s (s\<lparr>in_enclave := e\<rparr>)"

section \<open>What each part sees of the other\<close>

text \<open>What the host can make of request \<open>i\<close>: the enclave's answer to it, or a broken connection.\<close>

definition its_answer ::
  "('key, 'stdin, 'vk, 'pt, 'sig) enclave_ext \<Rightarrow> 'key enclave_server \<Rightarrow> bool \<Rightarrow>
   ('stdin, 'rsig) tee_request \<Rightarrow> (server_error, 'sig tee_response) outcome" where
  "its_answer ext srv oc rq =
     execution_result oc (join_execution ext (execute ext srv (rq_stdin rq) (rq_program rq) (rq_cycle_limit rq)))"

definition system_results ::
  "('key, 'stdin, 'vk, 'pt, 'sig) enclave_ext \<Rightarrow> 'key enclave_server \<Rightarrow> bool \<Rightarrow>
   (nat \<Rightarrow> ('stdin, 'rsig) tee_request) \<Rightarrow> nat \<Rightarrow> (server_error, 'sig tee_response) outcome \<Rightarrow> bool" where
  "system_results ext srv oc reqs i r \<longleftrightarrow>
     r = its_answer ext srv oc (reqs i) \<or>
     r \<in> {Err FailedToConnectToEnclave, Err FailedToSendRequestToEnclave, Err FailedToReceiveResponseFromEnclave}"

text \<open>
  On the connection of a request that runs nothing has arrived but this request. A request that has
  left says no more.
\<close>

definition link_ok ::
  "(nat \<Rightarrow> ('stdin, 'rsig) tee_request) \<Rightarrow> ('key, 'stdin, 'pt, 'sig) system \<Rightarrow> nat \<Rightarrow> bool" where
  "link_ok reqs s i \<longleftrightarrow>
     (case conns (in_enclave s) (link i) of
        None \<Rightarrow> True
      | Some c \<Rightarrow>
          req_phase (on_host s) i = Running \<and> (arrived c = [] \<or> arrived c = [asked_of_enclave (reqs i)]) \<or>
          has_left (req_phase (on_host s) i))"

definition system_inv ::
  "('key, 'stdin, 'vk, 'pt, 'sig) enclave_ext \<Rightarrow> bool \<Rightarrow> 'key enclave_server \<Rightarrow> bool \<Rightarrow>
   (nat \<Rightarrow> ('stdin, 'rsig) tee_request) \<Rightarrow> ('key, 'stdin, 'pt, 'sig) system \<Rightarrow> bool" where
  "system_inv ext debug srv oc reqs s \<longleftrightarrow>
     host_inv (system_results ext srv oc reqs) (on_host s) \<and> sys_inv ext debug srv (in_enclave s) \<and>
     (\<forall>i. link_ok reqs s i)"

lemma link_inject [simp]: "link i = link j \<longleftrightarrow> i = j"
  by (simp add: link_def)

lemma asked_not_close [simp]: "asked_of_enclave rq \<noteq> CloseSession" "CloseSession \<noteq> asked_of_enclave rq"
  by (simp_all add: asked_of_enclave_def)

lemma link_okD:
  assumes "link_ok reqs s i" and "conns (in_enclave s) (link i) = Some c"
  shows "req_phase (on_host s) i = Running \<or> has_left (req_phase (on_host s) i)"
    and "has_left (req_phase (on_host s) i) \<or> arrived c = [] \<or> arrived c = [asked_of_enclave (reqs i)]"
  using assms by (auto simp: link_ok_def)

text \<open>The answer to a request that still runs is the answer to this request.\<close>

lemma reply_of_running:
  assumes "system_inv ext debug srv oc reqs s" and "req_phase (on_host s) i = Running"
    and "conns (in_enclave s) (link i) = Some c" and "replies c = r # rs"
  shows "r = join_execution ext (execute ext srv (rq_stdin (reqs i)) (rq_program (reqs i)) (rq_cycle_limit (reqs i)))"
    and "served c = [asked_of_enclave (reqs i)]"
proof -
  have "sys_inv ext debug srv (in_enclave s)" and l: "link_ok reqs s i"
    using assms(1) by (simp_all add: system_inv_def)
  then have "conn_inv ext debug srv c" using assms(3) by (blast intro: conn_inv_of)
  then have c: "replies c = answers ext debug srv (served c)" "arrived c = served c @ in_hand (phase c) @ inbox c"
    by (simp_all add: conn_inv_def)
  have "arrived c = [] \<or> arrived c = [asked_of_enclave (reqs i)]"
    using link_okD(2) [OF l assms(3)] assms(2) by auto
  moreover have "served c \<noteq> []" using c(1) assms(4) by auto
  ultimately show "served c = [asked_of_enclave (reqs i)]"
    using c(2) by (auto simp: append_eq_Cons_conv Cons_eq_append_conv)
  then show "r = join_execution ext (execute ext srv (rq_stdin (reqs i)) (rq_program (reqs i)) (rq_cycle_limit (reqs i)))"
    using c(1) assms(4) by (simp add: asked_of_enclave_def)
qed

section \<open>The system is made of runs of its parts\<close>

lemma deliver_step: "conns e k = Some c \<Longrightarrow> enclave_step ext debug e (deliver k m e)"
  by (simp add: deliver_def enclave_step.arrive)

lemma step_in_enclave:
  "system_step ext debug oc reqs s t \<Longrightarrow>
   enclave_step ext debug (in_enclave s) (in_enclave t) \<or> in_enclave t = in_enclave s"
  by (induction rule: system_step.induct) (auto intro: deliver_step enclave_step.accept)

lemma step_on_host:
  assumes "system_step ext debug oc reqs s t" and "system_inv ext debug srv oc reqs s"
  shows "host_step (system_results ext srv oc reqs) (on_host s) (on_host t) \<or> on_host t = on_host s"
  using assms
proof (induction rule: system_step.induct)
  case (receive s i c r rs)
  then have "system_results ext srv oc reqs i (execution_result oc r)"
    using reply_of_running(1) by (fastforce simp: system_results_def its_answer_def)
  then show ?case using receive.hyps(1) by (auto intro: host_step.return)
qed (auto simp: system_results_def intro: host_step.intros)

text \<open>A request that has a connection runs or has left, and does not come back.\<close>

lemma host_step_forward:
  assumes "host_step results a b" and "host_inv results a"
    and "req_phase a i = Running \<or> has_left (req_phase a i)"
  shows "(req_phase b i = Running \<or> has_left (req_phase b i)) \<and>
    (has_left (req_phase a i) \<longrightarrow> has_left (req_phase b i))"
proof -
  have queue: "i \<in> set (lock_queue a) \<longleftrightarrow> req_phase a i = Queued" by (rule host_invD(2) [OF assms(2)])
  show ?thesis
    using assms(1,3) queue
    by (cases rule: host_step.cases)
      (auto simp: mutex_lock_def leave_as_def mutex_release_def withdraw_def split: option.splits list.splits)
qed

lemma link_ok_unchanged:
  "link_ok reqs s i \<Longrightarrow> req_phase (on_host t) i = req_phase (on_host s) i \<Longrightarrow>
   map_option arrived (conns (in_enclave t) (link i)) = map_option arrived (conns (in_enclave s) (link i)) \<Longrightarrow>
   link_ok reqs t i"
  by (auto simp: link_ok_def split: option.splits)

lemma link_ok_host:
  assumes "link_ok reqs s i" and "host_step results (on_host s) b" and "host_inv results (on_host s)"
  shows "link_ok reqs (s\<lparr>on_host := b\<rparr>) i"
proof (cases "conns (in_enclave s) (link i)")
  case (Some c)
  note c = link_okD [OF assms(1) Some]
  show ?thesis
    using host_step_forward [OF assms(2,3) c(1)] c(2) Some by (auto simp: link_ok_def)
qed (simp add: link_ok_def)

lemma link_ok_deliver:
  assumes "link_ok reqs s j" and "conns (in_enclave s) (link i) = Some c"
    and "arrived c = [] \<and> m = asked_of_enclave (reqs i) \<or> has_left (req_phase (on_host s) i)"
  shows "link_ok reqs (s\<lparr>in_enclave := deliver (link i) m (in_enclave s)\<rparr>) j"
proof (cases "i = j")
  case True
  then show ?thesis
    using link_okD [OF assms(1)] assms(2,3) by (auto simp: link_ok_def deliver_def)
next
  case False
  then show ?thesis
    using assms(2) by (intro link_ok_unchanged [OF assms(1)]) (simp_all add: deliver_def)
qed

lemma link_ok_step:
  assumes "system_step ext debug oc reqs s t" and "system_inv ext debug srv oc reqs s"
  shows "link_ok reqs t j"
proof -
  let ?res = "system_results ext srv oc reqs"
  have l: "link_ok reqs s j" and h: "host_inv ?res (on_host s)"
    using assms(2) by (simp_all add: system_inv_def)
  have by_host: "link_ok reqs (s\<lparr>on_host := b\<rparr>) j" if "t = s\<lparr>on_host := b\<rparr>" for b
    using step_on_host [OF assms] that link_ok_host [OF l _ h, of b] l by auto
  show ?thesis
    using assms(1)
  proof (cases rule: system_step.cases)
    case (connect i)
    then show ?thesis by (cases "i = j") (use l in \<open>auto simp: link_ok_def new_conn_def split: option.splits\<close>)
  next
    case (send i c)
    then show ?thesis using link_ok_deliver [OF l] by simp
  next
    case (close i c)
    then show ?thesis using link_ok_deliver [OF l] by simp
  next
    case (cut i c m)
    then show ?thesis using link_ok_deliver [OF l] by simp
  next
    case (enclave e)
    then show ?thesis by (auto intro: link_ok_unchanged [OF l])
  qed (use by_host in blast)+
qed

lemma system_inv_step:
  assumes "system_inv ext debug srv oc reqs s" and "system_step ext debug oc reqs s t"
  shows "system_inv ext debug srv oc reqs t"
  using assms(1) step_on_host [OF assms(2,1)] step_in_enclave [OF assms(2)] link_ok_step [OF assms(2,1)]
  by (auto simp: system_inv_def intro: host_inv_step sys_inv_step)

lemma link_ok_start: "link_ok reqs (system_start srv) i"
  by (simp add: link_ok_def system_start_def enclave_start_def)

lemma system_inv_start: "system_inv ext debug srv oc reqs (system_start srv)"
  unfolding system_inv_def
  by (intro conjI allI link_ok_start) (simp_all add: system_start_def host_inv_start sys_inv_start)

interpretation system: transition_system "\<lambda>s. s = system_start srv" "system_step ext debug oc reqs"
    "system_inv ext debug srv oc reqs"
  for ext :: "('key, 'stdin, 'vk, 'pt, 'sig) enclave_ext" and debug and srv and oc
    and reqs :: "nat \<Rightarrow> ('stdin, 'rsig) tee_request"
  by unfold_locales (auto simp: system_inv_start intro: system_inv_step)

lemmas system_reach = system.reach_inv [OF refl]

lemma system_runs:
  assumes "rtranclp (system_step ext debug oc reqs) (system_start srv) s"
  shows "rtranclp (host_step (system_results ext srv oc reqs)) host_start (on_host s)"
    and "rtranclp (enclave_step ext debug) (enclave_start srv) (in_enclave s)"
  using assms
proof (induction rule: rtranclp_induct)
  case base
  {
    case 1
    then show ?case by (simp add: system_start_def)
  next
    case 2
    then show ?case by (simp add: system_start_def)
  }
next
  case (step s t)
  {
    case 1
    then show ?case
      using step.IH(1) step_on_host [OF step.hyps(2) system_reach [OF step.hyps(1)]]
      by (metis rtranclp.rtrancl_into_rtrancl)
  next
    case 2
    then show ?case
      using step.IH(2) step_in_enclave [OF step.hyps(2)] by (metis rtranclp.rtrancl_into_rtrancl)
  }
qed

section \<open>Every request comes to its end\<close>

lemma enclave_task:
  assumes "enclave_step ext debug (in_enclave s) (set_conn k c' e)" and "conns (in_enclave s) k = Some c"
    and "arrived c' = arrived c" and "conns e = conns (in_enclave s)"
  shows "system_step ext debug oc reqs s (s\<lparr>in_enclave := set_conn k c' e\<rparr>)"
  using assms by (intro system_step.enclave) auto

text \<open>A run of the enclave, seen from the host, after which the answer to request \<open>i\<close> can be read.\<close>

definition can_answer ::
  "('key, 'stdin, 'vk, 'pt, 'sig) enclave_ext \<Rightarrow> bool \<Rightarrow> bool \<Rightarrow> (nat \<Rightarrow> ('stdin, 'rsig) tee_request) \<Rightarrow>
   ('key, 'stdin, 'pt, 'sig) system \<Rightarrow> nat \<Rightarrow> bool" where
  "can_answer ext debug oc reqs s i \<longleftrightarrow>
     (\<exists>t c. rtranclp (system_step ext debug oc reqs) s t \<and> on_host t = on_host s \<and>
        conns (in_enclave t) (link i) = Some c \<and> replies c \<noteq> [])"

lemma can_answer_now:
  "conns (in_enclave s) (link i) = Some c \<Longrightarrow> replies c \<noteq> [] \<Longrightarrow> can_answer ext debug oc reqs s i"
  by (auto simp: can_answer_def)

lemma can_answer_step:
  "system_step ext debug oc reqs s t \<Longrightarrow> on_host t = on_host s \<Longrightarrow> can_answer ext debug oc reqs t i \<Longrightarrow>
   can_answer ext debug oc reqs s i"
  by (auto simp: can_answer_def intro: converse_rtranclp_into_rtranclp)

lemma can_answer_answering:
  assumes "conns (in_enclave s) (link i) = Some c" and "phase c = Answering stdin program limit r"
  shows "can_answer ext debug oc reqs s i"
  by (rule can_answer_step [OF enclave_task [OF enclave_step.answer [OF assms] assms(1)]])
    (auto intro: can_answer_now)

lemma can_answer_executing:
  assumes "conns (in_enclave s) (link i) = Some c" and "phase c = Executing stdin program limit"
  shows "can_answer ext debug oc reqs s i"
  by (rule can_answer_step [OF enclave_task [OF enclave_step.unlock [OF assms] assms(1)]])
    (auto intro: can_answer_answering)

lemma can_answer_waiting_free:
  assumes "conns (in_enclave s) (link i) = Some c" and "phase c = WaitingGuard stdin program limit"
    and "execution_guard (in_enclave s) = None"
  shows "can_answer ext debug oc reqs s i"
  by (rule can_answer_step [OF enclave_task [OF enclave_step.lock [OF assms] assms(1)]])
    (auto intro: can_answer_executing)

lemma can_answer_waiting:
  assumes "sys_inv ext debug srv (in_enclave s)"
    and "conns (in_enclave s) (link i) = Some c" and "phase c = WaitingGuard stdin program limit"
  shows "can_answer ext debug oc reqs s i"
proof (cases "execution_guard (in_enclave s)")
  case None
  with assms(2,3) show ?thesis by (rule can_answer_waiting_free)
next
  case (Some k)
  then have "executing (in_enclave s) k" using assms(1) by (simp add: executing_iff)
  then obtain d sd pd ld where d: "conns (in_enclave s) k = Some d" "phase d = Executing sd pd ld"
    by (auto simp: executing_def is_Executing_def split: option.splits)
  then have "k \<noteq> link i" using assms(2,3) by auto
  then show ?thesis
    using assms(2,3)
    by (intro can_answer_step [OF enclave_task [OF enclave_step.unlock [OF d] d(1)]])
      (auto intro: can_answer_waiting_free)
qed

lemma can_answer_arrived:
  assumes "sys_inv ext debug srv (in_enclave s)"
    and "conns (in_enclave s) (link i) = Some c" and "phase c = Receiving" and "inbox c = asked_of_enclave rq # ms"
  shows "can_answer ext debug oc reqs s i"
proof (cases "needs_guard (asked_of_enclave rq)")
  case True
  note step = enclave_step.queue [OF assms(2,3) assms(4)[unfolded asked_of_enclave_def]
      True[unfolded asked_of_enclave_def], of ext debug]
  have "sys_inv ext debug srv (set_conn (link i)
      (c\<lparr>inbox := ms, phase := WaitingGuard (rq_stdin rq) (rq_program rq) (rq_cycle_limit rq)\<rparr>) (in_enclave s))"
    by (rule sys_inv_step [OF assms(1) step])
  then show ?thesis
    by (intro can_answer_step [OF enclave_task [OF step assms(2)]]) (auto intro: can_answer_waiting)
next
  case False
  show ?thesis
    by (rule can_answer_step [OF enclave_task [OF enclave_step.serve [OF assms(2,3,4) False] assms(2)]])
      (auto simp: asked_of_enclave_def intro: can_answer_now)
qed

lemma can_answer_connected:
  assumes "system_inv ext debug srv oc reqs s" and "req_phase (on_host s) i = Running"
    and "conns (in_enclave s) (link i) = Some c" and "phase c = Receiving" and "arrived c = []"
  shows "can_answer ext debug oc reqs s i"
proof -
  have "inbox c = []"
    using conn_inv_of [of ext debug srv "in_enclave s" "link i" c] assms(1,3,5)
    by (simp add: conn_inv_def system_inv_def)
  let ?t = "s\<lparr>in_enclave := deliver (link i) (asked_of_enclave (reqs i)) (in_enclave s)\<rparr>"
  have step: "system_step ext debug oc reqs s ?t" by (rule system_step.send [OF assms(2,3,5)])
  have "sys_inv ext debug srv (in_enclave ?t)"
    using system_inv_step [OF assms(1) step] unfolding system_inv_def by blast
  then show ?thesis
    using assms(3,4) \<open>inbox c = []\<close>
    by (intro can_answer_step [OF step]) (auto simp: deliver_def intro: can_answer_arrived)
qed

lemma can_answer_fresh:
  assumes "system_inv ext debug srv oc reqs s" and "req_phase (on_host s) i = Running"
    and "conns (in_enclave s) (link i) = None"
  shows "can_answer ext debug oc reqs s i"
proof -
  note step = system_step.connect [OF assms(2,3), of ext debug oc reqs]
  show ?thesis
    using system_inv_step [OF assms(1) step] assms(2)
    by (intro can_answer_step [OF step]) (auto simp: new_conn_def intro: can_answer_connected)
qed

text \<open>The connection of request \<open>i\<close> is not lost: it is not there yet, or its task still runs.\<close>

fun task_over :: "('stdin, 'pt, 'sig) phase \<Rightarrow> bool" where
  "task_over Finished \<longleftrightarrow> True"
| "task_over (Crashed ms) \<longleftrightarrow> True"
| "task_over _ \<longleftrightarrow> False"

definition link_up :: "('key, 'stdin, 'pt, 'sig) system \<Rightarrow> nat \<Rightarrow> bool" where
  "link_up s i \<longleftrightarrow>
     (case conns (in_enclave s) (link i) of None \<Rightarrow> True | Some c \<Rightarrow> \<not> task_over (phase c))"

lemma can_answer_linked:
  assumes "system_inv ext debug srv oc reqs s" and "req_phase (on_host s) i = Running"
    and "conns (in_enclave s) (link i) = Some c" and "\<not> task_over (phase c)"
  shows "can_answer ext debug oc reqs s i"
proof (cases "phase c")
  case Receiving
  have sys: "sys_inv ext debug srv (in_enclave s)" and l: "link_ok reqs s i"
    using assms(1) by (simp_all add: system_inv_def)
  have "arrived c = served c @ inbox c" and "replies c = answers ext debug srv (served c)"
    using conn_inv_of [OF sys assms(3)] Receiving by (simp_all add: conn_inv_def)
  moreover have "arrived c = [] \<or> arrived c = [asked_of_enclave (reqs i)]"
    using link_okD(2) [OF l assms(3)] assms(2) by auto
  ultimately consider "arrived c = []" | "inbox c = [asked_of_enclave (reqs i)]" | "replies c \<noteq> []"
    by (cases "served c") (auto simp: asked_of_enclave_def)
  then show ?thesis
    using assms(1-3) sys Receiving
    by cases (blast intro: can_answer_connected can_answer_arrived can_answer_now)+
qed (use assms in \<open>auto simp: system_inv_def intro: can_answer_waiting can_answer_executing can_answer_answering\<close>)

lemma queued_link:
  "system_inv ext debug srv oc reqs s \<Longrightarrow> req_phase (on_host s) i = Queued \<Longrightarrow>
   conns (in_enclave s) (link i) = None"
  using link_okD(1) [of reqs s i] by (fastforce simp: system_inv_def)

text \<open>
  A request that has the mutex returns, and with its answer if it has no connection yet. The requests
  in the queue are left as they are, without a connection.
\<close>

lemma returns_answered:
  assumes "system_inv ext debug srv oc reqs s" and "req_phase (on_host s) i = Running"
    and "can_answer ext debug oc reqs s i"
  shows "\<exists>t. rtranclp (system_step ext debug oc reqs) s t \<and>
    on_host t = leave_as i (Returned (its_answer ext srv oc (reqs i))) (on_host s) \<and>
    (\<forall>k. req_phase (on_host s) k = Queued \<longrightarrow> conns (in_enclave t) (link k) = None)"
proof -
  obtain t c where t: "rtranclp (system_step ext debug oc reqs) s t" "on_host t = on_host s"
      "conns (in_enclave t) (link i) = Some c" and "replies c \<noteq> []"
    using assms(3) by (auto simp: can_answer_def)
  then obtain r rs where r: "replies c = r # rs" by (cases "replies c") auto
  have inv: "system_inv ext debug srv oc reqs t" by (rule system.steps_inv [OF t(1) assms(1)])
  have ph: "req_phase (on_host t) i = Running" using t(2) assms(2) by simp
  have "execution_result oc r = its_answer ext srv oc (reqs i)"
    using reply_of_running(1) [OF inv ph t(3) r] by (simp add: its_answer_def)
  then have "system_step ext debug oc reqs t
      (t\<lparr>on_host := leave_as i (Returned (its_answer ext srv oc (reqs i))) (on_host t)\<rparr>)"
    using system_step.receive [OF ph t(3) r, of ext debug oc reqs] by simp
  with t(1) have "rtranclp (system_step ext debug oc reqs) s
      (t\<lparr>on_host := leave_as i (Returned (its_answer ext srv oc (reqs i))) (on_host t)\<rparr>)"
    by (rule rtranclp.rtrancl_into_rtrancl)
  moreover have "conns (in_enclave t) (link k) = None" if "req_phase (on_host s) k = Queued" for k
    using queued_link [OF inv] that t(2) by simp
  ultimately show ?thesis using t(2) by fastforce
qed

lemma returns_failed:
  assumes "req_phase (on_host s) i = Running" and "conns (in_enclave s) (link i) = Some c"
  shows "\<exists>t r. system_step ext debug oc reqs s t \<and> on_host t = leave_as i (Returned r) (on_host s) \<and>
    in_enclave t = in_enclave s"
proof (cases "arrived c = []")
  case True
  show ?thesis using system_step.send_failed [OF assms True, of ext debug oc reqs] by fastforce
next
  case False
  show ?thesis using system_step.receive_failed [OF assms False, of ext debug oc reqs] by fastforce
qed

lemma running_returns:
  assumes "system_inv ext debug srv oc reqs s" and "req_phase (on_host s) i = Running"
  shows "\<exists>t r. rtranclp (system_step ext debug oc reqs) s t \<and> on_host t = leave_as i (Returned r) (on_host s) \<and>
    (link_up s i \<longrightarrow> r = its_answer ext srv oc (reqs i)) \<and>
    (\<forall>k. req_phase (on_host s) k = Queued \<longrightarrow> conns (in_enclave t) (link k) = None)"
proof (cases "link_up s i")
  case True
  then have "can_answer ext debug oc reqs s i"
    using assms by (auto simp: link_up_def intro: can_answer_fresh can_answer_linked split: option.splits)
  then show ?thesis using returns_answered [OF assms] by blast
next
  case False
  then obtain c where "conns (in_enclave s) (link i) = Some c" by (auto simp: link_up_def split: option.splits)
  then obtain t r where "system_step ext debug oc reqs s t" "on_host t = leave_as i (Returned r) (on_host s)"
      "in_enclave t = in_enclave s"
    using returns_failed [OF assms(2)] by blast
  then show ?thesis using False queued_link [OF assms(1)] by (metis r_into_rtranclp)
qed

text \<open>The requests before \<open>i\<close> in the queue return one after the other, until it is \<open>i\<close>'s turn.\<close>

lemma leave_as_phase:
  "req_phase (leave_as j (Returned r) a) k = Dropped \<Longrightarrow> req_phase a k = Dropped"
  by (auto simp: leave_as_def mutex_release_def split: list.splits if_splits)

lemma front_leaves:
  assumes "system_inv ext debug srv oc reqs s" and "lock_queue (on_host s) = k # ks"
  shows "\<exists>t. rtranclp (system_step ext debug oc reqs) s t \<and> system_inv ext debug srv oc reqs t \<and>
    req_phase (on_host t) k = Running \<and> link_up t k \<and> lock_queue (on_host t) = ks \<and>
    (\<forall>j. req_phase (on_host t) j = Dropped \<longrightarrow> req_phase (on_host s) j = Dropped)"
proof -
  have h: "host_inv (system_results ext srv oc reqs) (on_host s)"
    using assms(1) by (simp add: system_inv_def)
  then obtain i where "execution_mutex (on_host s) = Some i"
    using assms(2) by (auto simp: host_inv_def history_ok_def)
  then have "req_phase (on_host s) i = Running" by (simp add: host_invD(1) [OF h])
  from running_returns [OF assms(1) this] obtain t r where t: "rtranclp (system_step ext debug oc reqs) s t"
      "on_host t = leave_as i (Returned r) (on_host s)"
      "\<forall>k. req_phase (on_host s) k = Queued \<longrightarrow> conns (in_enclave t) (link k) = None"
    by blast
  have "req_phase (on_host s) k = Queued" using assms(2) by (simp flip: host_invD(2) [OF h])
  then have "link_up t k" using t(3) by (simp add: link_up_def)
  moreover have "req_phase (on_host t) k = Running" "lock_queue (on_host t) = ks"
    using t(2) assms(2) by (simp_all add: leave_as_def mutex_release_def)
  moreover have "system_inv ext debug srv oc reqs t" by (rule system.steps_inv [OF t(1) assms(1)])
  ultimately show ?thesis using t(1,2) leave_as_phase by metis
qed

lemma turn_comes:
  assumes "system_inv ext debug srv oc reqs s" and "lock_queue (on_host s) = ks @ i # ls"
  shows "\<exists>t. rtranclp (system_step ext debug oc reqs) s t \<and> system_inv ext debug srv oc reqs t \<and>
    req_phase (on_host t) i = Running \<and> link_up t i \<and>
    (\<forall>k. req_phase (on_host t) k = Dropped \<longrightarrow> req_phase (on_host s) k = Dropped)"
  using assms
proof (induction ks arbitrary: s)
  case Nil
  then show ?case using front_leaves [OF Nil.prems(1), of i ls] by auto
next
  case (Cons k ks)
  obtain t where t: "rtranclp (system_step ext debug oc reqs) s t" "system_inv ext debug srv oc reqs t"
      "lock_queue (on_host t) = ks @ i # ls"
      "\<forall>j. req_phase (on_host t) j = Dropped \<longrightarrow> req_phase (on_host s) j = Dropped"
    using front_leaves [OF Cons.prems(1), of k "ks @ i # ls"] Cons.prems(2) by auto
  from Cons.IH [OF t(2,3)] obtain u where "rtranclp (system_step ext debug oc reqs) t u"
      "system_inv ext debug srv oc reqs u" "req_phase (on_host u) i = Running" "link_up u i"
      "\<forall>k. req_phase (on_host u) k = Dropped \<longrightarrow> req_phase (on_host t) k = Dropped"
    by blast
  with t(1,4) show ?case by (meson rtranclp_trans)
qed

lemma leave_as_self:
  "host_inv results a \<Longrightarrow> req_phase a i = Running \<Longrightarrow> req_phase (leave_as i p a) i = p"
  using host_invD(2) [of results a i] by (auto simp: leave_as_def mutex_release_def split: list.split)

lemma dropped_step:
  assumes "host_step results a b" and "host_inv results a" and "req_phase a k = Dropped"
  shows "req_phase b k = Dropped"
  using assms(1,3) host_invD(2) [OF assms(2), of k]
  by (cases rule: host_step.cases)
    (auto simp: mutex_lock_def leave_as_def mutex_release_def withdraw_def split: option.splits list.splits)

lemma dropped_stays:
  assumes "rtranclp (system_step ext debug oc reqs) s t" and "system_inv ext debug srv oc reqs s"
    and "req_phase (on_host s) k = Dropped"
  shows "req_phase (on_host t) k = Dropped"
  using assms(1)
proof (induction rule: rtranclp_induct)
  case (step t u)
  have inv: "system_inv ext debug srv oc reqs t" by (rule system.steps_inv [OF step.hyps(1) assms(2)])
  then show ?case
    using step_on_host [OF step.hyps(2) inv] step.IH dropped_step by (fastforce simp: system_inv_def)
qed (rule assms(3))

section \<open>Requests that are given up\<close>

definition waits_in_enclave :: "('key, 'stdin, 'pt, 'sig) system \<Rightarrow> 'stdin enclave_request \<Rightarrow> nat \<Rightarrow> bool" where
  "waits_in_enclave s m i \<longleftrightarrow>
     (\<exists>c stdin program limit. conns (in_enclave s) (link i) = Some c \<and>
        phase c = WaitingGuard stdin program limit \<and> m = Execute stdin program limit)"

text \<open>A client sends a request and goes away when the enclave has read it: the mutex is free again.\<close>

lemma given_up:
  assumes "execution_mutex (on_host s) = None" and "lock_queue (on_host s) = []"
    and "req_phase (on_host s) i = Idle" and "conns (in_enclave s) (link i) = None"
    and "rq_cycle_limit (reqs i) \<le> MAX_ALLOWED_CYCLES"
  shows "\<exists>t c. rtranclp (system_step ext debug oc reqs) s t \<and>
    execution_mutex (on_host t) = None \<and> lock_queue (on_host t) = [] \<and>
    req_phase (on_host t) = (req_phase (on_host s))(i := Dropped) \<and>
    conns (in_enclave t) = (conns (in_enclave s))(link i \<mapsto> c) \<and>
    phase c = WaitingGuard (rq_stdin (reqs i)) (rq_program (reqs i)) (rq_cycle_limit (reqs i))"
proof -
  let ?step = "system_step ext debug oc reqs" and ?k = "link i" and ?m = "asked_of_enclave (reqs i)"
  let ?c = "new_conn\<lparr>arrived := [?m], inbox := [?m]\<rparr>"
  let ?w = "?c\<lparr>inbox := [], phase := WaitingGuard (rq_stdin (reqs i)) (rq_program (reqs i)) (rq_cycle_limit (reqs i))\<rparr>"
  define s1 where "s1 = s\<lparr>on_host := mutex_lock i (on_host s)\<rparr>"
  define s2 where "s2 = s1\<lparr>in_enclave := set_conn ?k new_conn (in_enclave s1)\<rparr>"
  define s3 where "s3 = s2\<lparr>in_enclave := deliver ?k ?m (in_enclave s2)\<rparr>"
  define s4 where "s4 = s3\<lparr>in_enclave := set_conn ?k ?w (in_enclave s3)\<rparr>"
  define s5 where "s5 = s4\<lparr>on_host := leave_as i Dropped (on_host s4)\<rparr>"
  have h: "on_host s4 = mutex_lock i (on_host s)" "on_host s1 = mutex_lock i (on_host s)"
      "on_host s2 = mutex_lock i (on_host s)" "on_host s3 = mutex_lock i (on_host s)"
    by (simp_all add: s4_def s3_def s2_def s1_def)
  have e: "in_enclave s1 = in_enclave s" "conns (in_enclave s2) ?k = Some new_conn" "conns (in_enclave s3) ?k = Some ?c"
      "conns (in_enclave s5) = (conns (in_enclave s))(?k \<mapsto> ?w)"
    by (simp_all add: s5_def s4_def s3_def s2_def s1_def deliver_def new_conn_def)
  have runs: "req_phase (mutex_lock i (on_host s)) i = Running"
    using assms(1) by (simp add: mutex_lock_def)
  have "?step s s1" unfolding s1_def by (rule system_step.ask [OF assms(3)])
  moreover have "?step s1 s2" unfolding s2_def using runs assms(4) by (intro system_step.connect) (simp_all add: h e)
  moreover have "?step s2 s3"
    unfolding s3_def using runs by (intro system_step.send [OF _ e(2)]) (simp_all add: h new_conn_def)
  moreover have "enclave_step ext debug (in_enclave s3) (set_conn ?k ?w (in_enclave s3))"
    using enclave_step.queue [OF e(3), of "rq_stdin (reqs i)" "rq_program (reqs i)" "rq_cycle_limit (reqs i)" "[]"
        ext debug] assms(5)
    by (simp add: asked_of_enclave_def new_conn_def)
  then have "?step s3 s4" unfolding s4_def by (rule enclave_task [OF _ e(3)]) simp_all
  moreover have "?step s4 s5" unfolding s5_def using runs by (intro system_step.go_away) (simp add: h)
  ultimately have "rtranclp ?step s s5" by (meson rtranclp.rtrancl_into_rtrancl rtranclp.rtrancl_refl)
  then show ?thesis
    using assms(1,2) e(4)
    by (intro exI [of _ s5] exI [of _ ?w]) (simp add: s5_def h leave_as_def mutex_release_def mutex_lock_def)
qed

lemma all_given_up:
  assumes "\<forall>i. rq_cycle_limit (reqs i) \<le> MAX_ALLOWED_CYCLES"
  shows "\<exists>s :: ('key, 'stdin, 'pt, 'sig) system. rtranclp (system_step ext debug oc reqs) (system_start srv) s \<and>
    execution_mutex (on_host s) = None \<and> lock_queue (on_host s) = [] \<and>
    (\<forall>i. if i < n then req_phase (on_host s) i = Dropped \<and> waits_in_enclave s (asked_of_enclave (reqs i)) i
      else req_phase (on_host s) i = Idle \<and> conns (in_enclave s) (link i) = None)"
proof (induction n)
  case 0
  show ?case by (intro exI [of _ "system_start srv"]) (simp add: system_start_def host_start_def enclave_start_def)
next
  case (Suc n)
  then obtain s :: "('key, 'stdin, 'pt, 'sig) system"
    where s: "rtranclp (system_step ext debug oc reqs) (system_start srv) s"
      "execution_mutex (on_host s) = None" "lock_queue (on_host s) = []"
    and each: "\<And>i. if i < n then req_phase (on_host s) i = Dropped \<and> waits_in_enclave s (asked_of_enclave (reqs i)) i
      else req_phase (on_host s) i = Idle \<and> conns (in_enclave s) (link i) = None"
    by blast
  have limit: "rq_cycle_limit (reqs n) \<le> MAX_ALLOWED_CYCLES" using assms by blast
  obtain t c where t: "rtranclp (system_step ext debug oc reqs) s t"
      "execution_mutex (on_host t) = None" "lock_queue (on_host t) = []"
      "req_phase (on_host t) = (req_phase (on_host s))(n := Dropped)"
      "conns (in_enclave t) = (conns (in_enclave s))(link n \<mapsto> c)"
      "phase c = WaitingGuard (rq_stdin (reqs n)) (rq_program (reqs n)) (rq_cycle_limit (reqs n))"
    using given_up [OF s(2,3), of n reqs ext debug oc, OF _ _ limit] each [of n] by auto
  have "if i < Suc n then req_phase (on_host t) i = Dropped \<and> waits_in_enclave t (asked_of_enclave (reqs i)) i
      else req_phase (on_host t) i = Idle \<and> conns (in_enclave t) (link i) = None" for i
    using each [of i] t(4-6) by (auto simp: waits_in_enclave_def asked_of_enclave_def less_Suc_eq split: if_splits)
  with s(1) t(1-3) show ?case by (intro exI [of _ t]) auto
qed

text \<open>Three requests against the concrete enclave, for the witnesses.\<close>

definition toy_system :: "(u8, bytes, bytes, bytes) system" where
  "toy_system = (system_start toy_server)\<lparr>on_host := mutex_lock 1 (mutex_lock 0 host_start)\<rparr>"

abbreviation toy_system_step ::
  "(u8, bytes, bytes, bytes) system \<Rightarrow> (u8, bytes, bytes, bytes) system \<Rightarrow> bool" where
  "toy_system_step \<equiv> system_step toy_ext False True toy_reqs"

lemma toy_system_reachable: "rtranclp toy_system_step (system_start toy_server) toy_system"
proof -
  let ?s1 = "(system_start toy_server)\<lparr>on_host := mutex_lock 0 host_start\<rparr> :: (u8, bytes, bytes, bytes) system"
  have "toy_system_step (system_start toy_server) ?s1"
    using system_step.ask [of "system_start toy_server :: (u8, bytes, bytes, bytes) system" 0 toy_ext False True toy_reqs]
    by (simp add: system_start_def host_start_def)
  moreover have "toy_system_step ?s1 toy_system"
    using system_step.ask [of ?s1 1 toy_ext False True toy_reqs]
    by (simp add: toy_system_def mutex_lock_def host_start_def)
  ultimately show ?thesis by (meson rtranclp.rtrancl_into_rtrancl rtranclp.rtrancl_refl)
qed

section \<open>Properties\<close>



text \<open>
  C6. To each its own, end to end. Whatever the other requests do, however many clients go away and
  whatever their abandoned executions still do in the enclave: a request that returned got what the
  enclave makes of its own program, input and cycle limit, or one of the three errors of a broken
  connection; at most one request is inside the host's critical section and at most one execution
  runs in the enclave, which need not be the one of that request.
\<close>

theorem system_returns_own_answer:
  assumes "rtranclp (system_step ext debug oc reqs) (system_start srv) s"
  shows "(\<forall>i r. req_phase (on_host s) i = Returned r \<longrightarrow>
      r = execution_result oc (join_execution ext
        (execute ext srv (rq_stdin (reqs i)) (rq_program (reqs i)) (rq_cycle_limit (reqs i)))) \<or>
      r \<in> {Err FailedToConnectToEnclave, Err FailedToSendRequestToEnclave, Err FailedToReceiveResponseFromEnclave}) \<and>
    (\<forall>i j. running (on_host s) i \<and> running (on_host s) j \<longrightarrow> i = j) \<and>
    (\<forall>k l. executing (in_enclave s) k \<and> executing (in_enclave s) l \<longrightarrow> k = l)"
proof (intro conjI allI impI)
  fix i j k l r
  note host_run = system_runs(1) [OF assms]
  show "r = execution_result oc (join_execution ext
        (execute ext srv (rq_stdin (reqs i)) (rq_program (reqs i)) (rq_cycle_limit (reqs i)))) \<or>
      r \<in> {Err FailedToConnectToEnclave, Err FailedToSendRequestToEnclave, Err FailedToReceiveResponseFromEnclave}"
    if "req_phase (on_host s) i = Returned r"
    using host_invD(5) [OF host_reach [OF host_run] that] by (simp add: system_results_def its_answer_def)
  show "i = j" if "running (on_host s) i \<and> running (on_host s) j"
    using host.mutual_exclusion [OF refl host_run] that by blast
  show "k = l" if "executing (in_enclave s) k \<and> executing (in_enclave s) l"
    using enclave.mutual_exclusion [OF refl system_runs(2) [OF assms]] that by blast
qed

theorem system_returns_own_answer_witness: "{j. running (on_host toy_system) j} = {0}"
proof -
  have "running (on_host toy_system) 0"
    by (simp add: running_def toy_system_def mutex_lock_def host_start_def)
  then show ?thesis using system_returns_own_answer [OF toy_system_reachable] by auto
qed

text \<open>
  C25. Every request can be answered. From every reachable state of host and enclave in which a request
  waits for the mutex, or has it and has not lost its connection, there is a run that ends with this
  request returning the enclave's answer to it, and on this run no client goes away: the requests in
  front return, the execution that holds the enclave's guard ends, and the request is executed.
\<close>

theorem system_request_is_answered:
  assumes "rtranclp (system_step ext debug oc reqs) (system_start srv) s"
    and "req_phase (on_host s) i = Queued \<or> req_phase (on_host s) i = Running \<and>
      (case conns (in_enclave s) (link i) of None \<Rightarrow> True | Some c \<Rightarrow> \<not> task_over (phase c))"
  shows "\<exists>t. rtranclp (system_step ext debug oc reqs) s t \<and>
    req_phase (on_host t) i = Returned (execution_result oc (join_execution ext
      (execute ext srv (rq_stdin (reqs i)) (rq_program (reqs i)) (rq_cycle_limit (reqs i))))) \<and>
    {k. req_phase (on_host t) k = Dropped} = {k. req_phase (on_host s) k = Dropped}"
proof -
  have inv: "system_inv ext debug srv oc reqs s" by (rule system_reach [OF assms(1)])
  obtain u where u: "rtranclp (system_step ext debug oc reqs) s u" "system_inv ext debug srv oc reqs u"
      "req_phase (on_host u) i = Running" "link_up u i"
      "\<forall>k. req_phase (on_host u) k = Dropped \<longrightarrow> req_phase (on_host s) k = Dropped"
  proof (cases "req_phase (on_host s) i = Queued")
    case True
    have "host_inv (system_results ext srv oc reqs) (on_host s)" using inv by (simp add: system_inv_def)
    then have "i \<in> set (lock_queue (on_host s))" using True by (simp add: host_invD(2))
    then obtain ks ls where "lock_queue (on_host s) = ks @ i # ls" by (meson split_list)
    then show ?thesis using turn_comes [OF inv] that by blast
  next
    case False
    then show ?thesis using assms(2) inv that [of s] by (simp add: link_up_def)
  qed
  obtain t where t: "rtranclp (system_step ext debug oc reqs) u t"
      "on_host t = leave_as i (Returned (its_answer ext srv oc (reqs i))) (on_host u)"
    using running_returns [OF u(2,3)] u(4) by blast
  have "rtranclp (system_step ext debug oc reqs) s t" using u(1) t(1) by (rule rtranclp_trans)
  moreover have "req_phase (on_host t) i = Returned (its_answer ext srv oc (reqs i))"
    using t(2) leave_as_self u(2,3) by (metis system_inv_def)
  moreover have "req_phase (on_host t) k = Dropped \<longleftrightarrow> req_phase (on_host s) k = Dropped" for k
    using dropped_stays [OF calculation(1) inv, of k] t(2) u(5) leave_as_phase by metis
  ultimately show ?thesis by (auto simp: its_answer_def)
qed

theorem system_request_is_answered_witness:
  "\<exists>t. rtranclp toy_system_step toy_system t \<and>
     req_phase (on_host t) 1 = Returned (execution_result True (SignedPublicValues (replicate 31 0 @ [2]) [5]
       (7 # replicate 31 0 @ [109]) 1)) \<and>
     {k. req_phase (on_host t) k = Dropped} = {}"
proof -
  have "req_phase (on_host toy_system) 1 = Queued" and "{k. req_phase (on_host toy_system) k = Dropped} = {}"
    by (simp_all add: toy_system_def mutex_lock_def host_start_def)
  then show ?thesis
    using system_request_is_answered [OF toy_system_reachable, of 1]
    by (simp add: toy_reqs_def toy_request_def toy_execution)
qed

text \<open>
  C27. The mutex of the host does not bound what the enclave has to hold. It is free again as soon as a
  client goes away, while the enclave, which has no cancellation, keeps the program and the input of
  the request until it has executed it: for every number \<open>n\<close> there is a reachable state in which the
  mutex is free and \<open>n\<close> requests whose clients have gone wait for the guard in the enclave, each with
  its whole request.
\<close>

theorem given_up_requests_pile_up:
  assumes "\<forall>i. rq_cycle_limit (reqs i) \<le> 4294967295"
  shows "\<exists>s :: ('key, 'stdin, 'pt, 'sig) system. rtranclp (system_step ext debug oc reqs) (system_start srv) s \<and>
    execution_mutex (on_host s) = None \<and>
    (\<forall>i < n. req_phase (on_host s) i = Dropped \<and>
       (\<exists>c. conns (in_enclave s) (link i) = Some c \<and>
          phase c = WaitingGuard (rq_stdin (reqs i)) (rq_program (reqs i)) (rq_cycle_limit (reqs i))))"
proof -
  have "\<forall>i. rq_cycle_limit (reqs i) \<le> MAX_ALLOWED_CYCLES" using assms by (simp add: MAX_ALLOWED_CYCLES_def)
  from all_given_up [OF this, of ext debug oc srv n] obtain s :: "('key, 'stdin, 'pt, 'sig) system"
    where s: "rtranclp (system_step ext debug oc reqs) (system_start srv) s" "execution_mutex (on_host s) = None"
      "\<And>i. i < n \<Longrightarrow> req_phase (on_host s) i = Dropped \<and> waits_in_enclave s (asked_of_enclave (reqs i)) i"
    by (auto split: if_splits)
  then show ?thesis
    by (intro exI [of _ s] conjI allI impI) (auto simp: waits_in_enclave_def asked_of_enclave_def)
qed

theorem given_up_requests_pile_up_witness:
  "\<exists>s :: (u8, bytes, bytes, bytes) system. rtranclp toy_system_step (system_start toy_server) s \<and>
     execution_mutex (on_host s) = None \<and> {0, 1, 2} \<subseteq> {i. req_phase (on_host s) i = Dropped} \<and>
     (\<exists>c. conns (in_enclave s) (link 2) = Some c \<and> phase c = WaitingGuard [5] [2] 100)"
proof -
  have "\<forall>i. rq_cycle_limit (toy_reqs i) \<le> 4294967295" by (simp add: toy_reqs_def toy_request_def)
  from given_up_requests_pile_up [OF this, of toy_ext False True toy_server 3]
  obtain s :: "(u8, bytes, bytes, bytes) system" where s: "rtranclp toy_system_step (system_start toy_server) s"
      "execution_mutex (on_host s) = None"
      "\<And>i. i < 3 \<Longrightarrow> req_phase (on_host s) i = Dropped \<and> (\<exists>c. conns (in_enclave s) (link i) = Some c \<and>
          phase c = WaitingGuard [5] [2] 100)"
    by (auto simp: toy_reqs_def toy_request_def)
  then show ?thesis using s(3) [of 0] s(3) [of 1] s(3) [of 2] by (intro exI [of _ s]) auto
qed

end
