(* ===== verification/Attestation_Task.thy ===== *)
theory Attestation_Task
  imports Attestations
begin

text \<open>
  The background task of the host that keeps the attestation in the bucket fresh:
  \<open>spawn_attestation_task\<close> in \<open>host/src/server.rs\<close>. Time is in seconds. \<open>tokio::time::interval\<close> is
  modelled by its documented contract: the first tick is due when the interval is made, each later
  one a period after the previous one was due, and a tick that is overdue completes at once.
\<close>

section \<open>The task\<close>

definition ATTESTATION_INTERVAL :: nat where
  "ATTESTATION_INTERVAL = 30 * 60"

definition TRY_AGAIN_INTERVAL :: nat where
  "TRY_AGAIN_INTERVAL = 5"

record ticker =
  period :: nat
  due :: nat

definition ticker_new :: "nat \<Rightarrow> nat \<Rightarrow> ticker" where
  "ticker_new p now = \<lparr>period = p, due = now\<rparr>"

text \<open>\<open>interval.tick().await\<close>: the time at which it completes, and the interval after it.\<close>

definition ticked :: "ticker \<Rightarrow> nat \<Rightarrow> nat \<times> ticker" where
  "ticked t now = (max now (due t), t\<lparr>due := due t + period t\<rparr>)"

text \<open>An attempt to save: when it started, what it returned, when it ended.\<close>

record attempt =
  at_start :: nat
  at_result :: "(save_attestation_error, unit) outcome"
  at_end :: nat

text \<open>
  The loop. The world gives each attempt the network it finds and the time it takes; the store is
  passed from one to the next. A panic ends the task.
\<close>

fun attestation_loop ::
  "'s attestation_ext \<Rightarrow> 'pt point_ops \<Rightarrow> 'stdin enclave_request bincode \<Rightarrow>
   ('pt, 'sig) enclave_response bincode \<Rightarrow> save_attestation_args \<Rightarrow> ticker \<Rightarrow> nat \<Rightarrow>
   (network \<times> nat) list \<Rightarrow> 's \<Rightarrow> attempt list \<times> 's" where
  "attestation_loop aext ops qcd rcd args t now [] store = ([], store)"
| "attestation_loop aext ops qcd rcd args t now ((net, took) # world) store =
     (let (r, store') = save_attestation aext ops qcd rcd net args store;
          a = \<lparr>at_start = now, at_result = r, at_end = now + took\<rparr>
      in (case r of
            Panic _ \<Rightarrow> ([a], store')
          | Err _ \<Rightarrow>
              let (as, store'') = attestation_loop aext ops qcd rcd args t
                (now + took + TRY_AGAIN_INTERVAL) world store'
              in (a # as, store'')
          | Ok _ \<Rightarrow>
              let (now', t') = ticked t (now + took);
                  (as, store'') = attestation_loop aext ops qcd rcd args t' now' world store'
              in (a # as, store'')))"

definition spawn_attestation_task ::
  "'s attestation_ext \<Rightarrow> 'pt point_ops \<Rightarrow> 'stdin enclave_request bincode \<Rightarrow>
   ('pt, 'sig) enclave_response bincode \<Rightarrow> bool \<Rightarrow> u32 \<Rightarrow> u16 \<Rightarrow> nat \<Rightarrow> nat \<Rightarrow>
   (network \<times> nat) list \<Rightarrow> 's \<Rightarrow> attempt list \<times> 's" where
  "spawn_attestation_task aext ops qcd rcd production cid port interval now world store =
     (let now' = now + TRY_AGAIN_INTERVAL in
      attestation_loop aext ops qcd rcd
        ((default_save_attestation_args production)\<lparr>sa_cid := cid, sa_port := port\<rparr>)
        (ticker_new interval now') now' world store)"

section \<open>Lemmas\<close>

definition quiet :: "network \<Rightarrow> bool" where
  "quiet net \<longleftrightarrow> (\<forall>cid port. \<not> panics (net cid port))"

lemma quiet_new:
  assumes "quiet net"
  shows "host_stream_new net cid port \<noteq> Panic p"
proof -
  have "\<not> panics (net cid (ucast port))" using assms by (simp add: quiet_def)
  then show ?thesis
    by (cases "net cid (ucast port)") (simp_all add: host_stream_new_def vsock_connect_def)
qed

lemma save_attestation_no_panic:
  assumes "raw_address_ok (addr_of_raw aext)" and "quiet net"
  shows "\<not> panics (fst (save_attestation aext ops qcd rcd net args store))"
proof -
  have store: "\<not> panics (fst (store_attestation aext ops st b d pt))" for st b d pt
    using sec1_no_panic [OF assms(1)]
    by (auto simp: store_attestation_def ethereum_address_from_encoded_point_def
        split: sum.split option.split prod.split)
  have recv: "\<not> panics (fst (receive_attestation rcd hs))" if "inner hs \<noteq> None" for hs
  proof -
    obtain r1 hs1 where r1: "host_recv rcd hs = (r1, hs1)" by fastforce
    moreover obtain r2 hs2 where r2: "host_recv rcd hs1 = (r2, hs2)" by fastforce
    moreover have "inner hs1 \<noteq> None" using host_recv_inner [OF r1 that] .
    ultimately have "\<not> panics r1" "\<not> panics r2"
      using host_no_panic(2) [of hs rcd] host_no_panic(2) [of hs1 rcd] that by simp_all
    with r1 r2 show ?thesis
      by (auto simp: receive_attestation_def split: outcome.split enclave_response.split)
  qed
  show ?thesis
  proof (cases "host_stream_new net (sa_cid args) (sa_port args)")
    case (Ok hs)
    obtain r1 hs1 where r1: "host_send qcd hs AttestSigningKey = (r1, hs1)" by fastforce
    obtain r2 hs2 where r2: "host_send qcd hs1 GetPublicKey = (r2, hs2)" by fastforce
    obtain r3 hs3 where r3: "receive_attestation rcd hs2 = (r3, hs3)" by fastforce
    have i: "inner hs \<noteq> None" using Ok by (rule host_stream_new_inner)
    have i1: "inner hs1 \<noteq> None" using host_send_inner [OF r1 i] .
    have i2: "inner hs2 \<noteq> None" using host_send_inner [OF r2 i1] .
    have "\<not> panics r1" "\<not> panics r2" "\<not> panics r3"
      using host_no_panic(1) [OF i, of qcd AttestSigningKey] host_no_panic(1) [OF i1, of qcd GetPublicKey]
        recv [OF i2] r1 r2 r3 by simp_all
    with Ok r1 r2 r3 store show ?thesis
      by (auto simp: save_attestation_def split: outcome.split)
  next
    case (Panic p)
    then show ?thesis using quiet_new [OF assms(2)] by simp
  qed (simp add: save_attestation_def)
qed

text \<open>The relation between an attempt and the next, for an interval of \<open>p\<close>.\<close>

definition follows :: "nat \<Rightarrow> attempt \<Rightarrow> attempt \<Rightarrow> bool" where
  "follows p a b \<longleftrightarrow>
     (if is_ok (at_result a)
      then at_end a \<le> at_start b \<and> at_start b \<le> max (at_end a) (at_start a + p)
      else at_start b = at_end a + 5)"

definition saves :: "attempt list \<Rightarrow> nat" where
  "saves as = length (filter (\<lambda>a. is_ok (at_result a)) as)"

lemma saves_simps [simp]:
  "saves [] = 0" "saves (a # as) = (if is_ok (at_result a) then Suc (saves as) else saves as)"
  by (simp_all add: saves_def)

text \<open>One round of the loop, when the attempt does not panic.\<close>

lemma attestation_loop_Cons:
  assumes "save_attestation aext ops qcd rcd net args store = (r, store')" and "\<not> panics r"
  shows "fst (attestation_loop aext ops qcd rcd args t now ((net, took) # world) store) =
    \<lparr>at_start = now, at_result = r, at_end = now + took\<rparr> #
    (if is_ok r
     then fst (attestation_loop aext ops qcd rcd args (t\<lparr>due := due t + period t\<rparr>)
       (max (now + took) (due t)) world store')
     else fst (attestation_loop aext ops qcd rcd args t (now + took + 5) world store'))"
  using assms
  by (cases r) (simp_all add: ticked_def TRY_AGAIN_INTERVAL_def split: prod.split)

lemma attestation_loop_start:
  "fst (attestation_loop aext ops qcd rcd args t now world store) = a # as \<Longrightarrow> at_start a = now"
  by (cases world) (auto simp: Let_def split: prod.splits outcome.splits)

lemma attestation_loop_schedule:
  assumes "raw_address_ok (addr_of_raw aext)" and "\<forall>(net, took) \<in> set world. quiet net"
    and "due t \<le> now + period t"
    and "fst (attestation_loop aext ops qcd rcd args t now world store) = as"
  shows "length as = length world \<and> successively (follows (period t)) as \<and>
    (\<forall>k < length as. due t + period t * saves (take k as) \<le> at_start (as ! k) + period t)"
  using assms(2-)
proof (induction world arbitrary: t now store as)
  case (Cons w world)
  obtain net took where w: "w = (net, took)" by fastforce
  obtain r store' where r: "save_attestation aext ops qcd rcd net args store = (r, store')" by fastforce
  have np: "\<not> panics r"
    using save_attestation_no_panic [OF assms(1), of net ops qcd rcd args store] Cons.prems(1) w r
    by simp
  define t' where "t' = (if is_ok r then t\<lparr>due := due t + period t\<rparr> else t)"
  define now' where "now' = (if is_ok r then max (now + took) (due t) else now + took + 5)"
  define as' where "as' = fst (attestation_loop aext ops qcd rcd args t' now' world store')"
  have as: "as = \<lparr>at_start = now, at_result = r, at_end = now + took\<rparr> # as'"
    using Cons.prems(3) attestation_loop_Cons [OF r np, of t now took world]
    by (auto simp: w as'_def t'_def now'_def split: if_splits)
  have t': "period t' = period t" "due t' = (if is_ok r then due t + period t else due t)"
    by (simp_all add: t'_def)
  have "due t' \<le> now' + period t'"
    using Cons.prems(2) by (auto simp: t' now'_def)
  then have IH: "length as' = length world" "successively (follows (period t)) as'"
      "\<forall>k < length as'. due t' + period t * saves (take k as') \<le> at_start (as' ! k) + period t"
    using Cons.IH [of t' now' store' as'] Cons.prems(1) t' by (simp_all add: as'_def)
  have "as' = [] \<or> at_start (hd as') = now'"
    by (cases as') (auto dest: attestation_loop_start simp: as'_def)
  then have "successively (follows (period t)) as"
    using IH(2) Cons.prems(2)
    by (cases as') (auto simp: as follows_def now'_def)
  moreover have "due t + period t * saves (take k as) \<le> at_start (as ! k) + period t"
    if "k < length as" for k
    using that IH(3) Cons.prems(2) t'(2) by (cases k) (auto simp: as split: if_splits)
  ultimately show ?case using IH(1) by (simp add: as)
qed simp

section \<open>Properties\<close>



end
