(* ===== verification/Host_Launch.thy ===== *)
theory Host_Launch
  imports Host_Server Attestation_Task
begin

text \<open>
  How the host server comes up and goes down: \<open>Server::new\<close>, \<open>ServerArgs\<close>, \<open>start_enclave\<close>,
  \<open>terminate_enclaves\<close> and \<open>get_enclave_measurement\<close> of \<open>host/src/server.rs\<close>, and \<open>main\<close> of
  \<open>host/bin/server.rs\<close>. The processes it runs are a parameter; what the program does to the outside
  is kept as a list of events. The directory the script runs in is fixed when the program is built and
  left out; so is the start of the tracing. An \<open>Err\<close> is \<open>std::process::exit\<close> with that code.
\<close>

section \<open>Arguments and processes\<close>

record server_args =
  sv_port :: u16
  sv_address :: string
  sv_enclave_cid :: u32
  sv_enclave_cores :: u32
  sv_enclave_memory :: u32
  sv_debug :: bool
  sv_prover_network_url :: string

text \<open>The defaults the command line is parsed with.\<close>

definition default_server_args :: server_args where
  "default_server_args = \<lparr>sv_port = 8080, sv_address = ''0.0.0.0'', sv_enclave_cid = ENCLAVE_CID,
     sv_enclave_cores = 12, sv_enclave_memory = 9000, sv_debug = False,
     sv_prover_network_url = ''https://rpc.production.succinct.xyz/''\<rparr>"

record command =
  cmd_program :: string
  cmd_args :: "string list"
  cmd_env :: "(string \<times> string) list"

datatype host_event =
    Ran command
  | SpawnedAttestationTask u32 u16 nat
  | Serving string u16

text \<open>Running a command to its end: \<open>Inl\<close> if it cannot be started, else whether it succeeded.\<close>

type_synonym runner = "command \<Rightarrow> string + bool"

definition run_script :: "runner \<Rightarrow> command \<Rightarrow> (int, unit) outcome" where
  "run_script run cmd =
     (case run cmd of
        Inl e \<Rightarrow> Panic ''Failed to run enclave.sh''
      | Inr success \<Rightarrow> if success then Ok () else Err 1)"

definition start_command :: "server_args \<Rightarrow> command" where
  "start_command a = \<lparr>cmd_program = ''sh'',
     cmd_args = [''scripts/enclave.sh'', ''run''] @ (if sv_debug a then [''--debug''] else []),
     cmd_env = [(''ENCLAVE_CID'', show_nat (unat (sv_enclave_cid a))),
       (''ENCLAVE_CPU_COUNT'', show_nat (unat (sv_enclave_cores a))),
       (''ENCLAVE_MEMORY'', show_nat (unat (sv_enclave_memory a)))]\<rparr>"

definition start_enclave :: "runner \<Rightarrow> server_args \<Rightarrow> (int, unit) outcome \<times> host_event list" where
  "start_enclave run a = (run_script run (start_command a), [Ran (start_command a)])"

definition terminate_command :: command where
  "terminate_command = \<lparr>cmd_program = ''sh'', cmd_args = [''scripts/enclave.sh'', ''terminate''],
     cmd_env = []\<rparr>"

definition terminate_enclaves :: "runner \<Rightarrow> (int, unit) outcome \<times> host_event list" where
  "terminate_enclaves run = (run_script run terminate_command, [Ran terminate_command])"

text \<open>One part of the start after another; the first that exits or panics is the last.\<close>

fun before ::
  "('e, 'a) outcome \<times> 'ev list \<Rightarrow> ('a \<Rightarrow> ('e, 'b) outcome \<times> 'ev list) \<Rightarrow> ('e, 'b) outcome \<times> 'ev list" where
  "before (Ok a, es) f = (let (r, es') = f a in (r, es @ es'))"
| "before (Err e, es) f = (Err e, es)"
| "before (Panic p, es) f = (Panic p, es)"

section \<open>The server\<close>

definition host_server_new ::
  "runner \<Rightarrow> bool \<Rightarrow> server_args \<Rightarrow> (int, host_server) outcome \<times> host_event list" where
  "host_server_new run production a =
     (if production \<and> sv_debug a
      then (Panic ''Debug mode is not allowed when the program is built for production.'', [])
      else before (start_enclave run a) (\<lambda>_.
        (Ok \<lparr>srv_cid = sv_enclave_cid a, srv_auth_client = auth_client_new (sv_prover_network_url a)\<rparr>,
         [SpawnedAttestationTask (sv_enclave_cid a) ENCLAVE_PORT ATTESTATION_INTERVAL])))"

text \<open>\<open>main\<close>; \<open>interrupted\<close> says whether the server ends by Ctrl-C or because serving failed.\<close>

definition host_main ::
  "runner \<Rightarrow> (string \<Rightarrow> u16 \<Rightarrow> bool) \<Rightarrow> bool \<Rightarrow> server_args \<Rightarrow> bool \<Rightarrow>
   (int, unit) outcome \<times> host_event list" where
  "host_main run bind production a interrupted =
     before (terminate_enclaves run) (\<lambda>_.
     before (host_server_new run production a) (\<lambda>server.
     before (if bind (sv_address a) (sv_port a) then (Ok (), [Serving (sv_address a) (sv_port a)])
             else (Panic ''Failed to bind to address'', [])) (\<lambda>_.
     if interrupted then before (terminate_enclaves run) (\<lambda>_. (Err 0, [])) else (Ok (), []))))"

section \<open>The measurement of the enclave\<close>

record enclave_measurement =
  measured_pcr0 :: string
  measured_pcr1 :: string
  measured_pcr2 :: string

text \<open>\<open>describe\<close> is \<open>nitro-cli describe-enclaves\<close>, \<open>from_json\<close> parses a list of measurements.\<close>

definition get_enclave_measurement ::
  "string + bytes \<Rightarrow> (string \<Rightarrow> string + enclave_measurement list) \<Rightarrow>
   (server_error, enclave_measurement) outcome" where
  "get_enclave_measurement describe from_json =
     (case describe of
        Inl e \<Rightarrow> Err (ServerIoError e)
      | Inr stdout \<Rightarrow>
          and_then (ok_or (ServerIoError ''invalid utf-8'') (from_utf8 stdout)) (\<lambda>raw.
            (case from_json raw of
               Inl e \<Rightarrow> Err (FailedToParseEnclaveMeasurement e)
             | Inr [] \<Rightarrow> Err FailedToConnectToEnclave
             | Inr (m # ms) \<Rightarrow> Ok m)))"

section \<open>Properties\<close>

text \<open>
  C38. The order of the start. What the program does is a prefix of: terminate left-over enclaves,
  start the enclave, spawn the attestation task for it, listen, terminate the enclaves (the last only
  on Ctrl-C). A part is reached only if the parts before it succeeded: the task and the listener
  never exist without a started enclave, which was started after the old ones were terminated. A
  production build never starts an enclave in debug mode: it panics
  after the clean-up.
\<close>

theorem host_main_order:
  assumes "host_main run bind production a interrupted = (r, es)"
  shows "(\<exists>n \<ge> 1. es = take n [Ran terminate_command, Ran (start_command a),
      SpawnedAttestationTask (sv_enclave_cid a) ENCLAVE_PORT ATTESTATION_INTERVAL,
      Serving (sv_address a) (sv_port a), Ran terminate_command]) \<and>
    (2 \<le> length es \<longrightarrow> run terminate_command = Inr True) \<and>
    (3 \<le> length es \<longrightarrow> run (start_command a) = Inr True) \<and>
    (length es = 5 \<longrightarrow> interrupted) \<and>
    (production \<and> sv_debug a \<longrightarrow> es = [Ran terminate_command] \<and> r \<noteq> Ok ())"
proof -
  let ?events = "[Ran terminate_command, Ran (start_command a),
    SpawnedAttestationTask (sv_enclave_cid a) ENCLAVE_PORT ATTESTATION_INTERVAL,
    Serving (sv_address a) (sv_port a), Ran terminate_command]"
  note unfold = host_main_def host_server_new_def start_enclave_def terminate_enclaves_def
    run_script_def Let_def
  have "es = take (length es) ?events \<and> 1 \<le> length es"
    using assms by (auto simp: unfold split: sum.splits if_splits)
  moreover have "(2 \<le> length es \<longrightarrow> run terminate_command = Inr True) \<and>
      (3 \<le> length es \<longrightarrow> run (start_command a) = Inr True) \<and> (length es = 5 \<longrightarrow> interrupted) \<and>
      (production \<and> sv_debug a \<longrightarrow> es = [Ran terminate_command] \<and> r \<noteq> Ok ())"
    using assms by (auto simp: unfold split: sum.splits if_splits)
  ultimately show ?thesis by blast
qed

theorem host_main_order_witness:
  "(\<exists>r. host_main (\<lambda>_. Inr True) (\<lambda>_ _. True) True (default_server_args\<lparr>sv_debug := True\<rparr>) True =
      (r, [Ran terminate_command])) \<and>
   (\<exists>n \<ge> 1. snd (host_main (\<lambda>_. Inr True) (\<lambda>_ _. True) True default_server_args True) =
      take n [Ran terminate_command, Ran (start_command default_server_args),
        SpawnedAttestationTask 10 5005 1800, Serving ''0.0.0.0'' 8080, Ran terminate_command])"
proof -
  let ?run = "\<lambda>_ :: command. Inr True" and ?bind = "\<lambda>_ _. True"
  let ?debug = "default_server_args\<lparr>sv_debug := True\<rparr>"
  obtain r es where m: "host_main ?run ?bind True ?debug True = (r, es)" by fastforce
  obtain r' es' where m': "host_main ?run ?bind True default_server_args True = (r', es')" by fastforce
  show ?thesis
    using host_main_order [OF m] host_main_order [OF m'] m m'
    by (simp add: default_server_args_def ENCLAVE_CID_def ENCLAVE_PORT_def ATTESTATION_INTERVAL_def)
qed

end
