(* ===== verification/Host_Http.thy ===== *)
theory Host_Http
  imports Host_Launch
begin

text \<open>
  The HTTP interface of the host: the routes that \<open>main\<close> of \<open>host/bin/server.rs\<close> sets up and what a
  request to them is answered with. The router is axum's; of its documentation the model uses that a
  path without a route is answered with 404, a route that does not have the method with 405, that
  \<open>get\<close> also serves HEAD, without the body, that the body of a request that is extracted as \<open>Bytes\<close> is refused with 413
  above the default limit unless the limit is disabled, and that a handler that panics ends the
  connection without an answer.
\<close>

section \<open>The routes\<close>

datatype endpoint_handler = ExecuteHandler | GetAddressHandler | GetSignersHandler

record route =
  route_path :: string
  route_method :: string
  route_handler :: endpoint_handler
  limit_disabled :: bool

definition routes :: "route list" where
  "routes =
     [\<lparr>route_path = ''/execute'', route_method = ''POST'', route_handler = ExecuteHandler, limit_disabled = True\<rparr>,
      \<lparr>route_path = ''/address'', route_method = ''GET'', route_handler = GetAddressHandler, limit_disabled = False\<rparr>,
      \<lparr>route_path = ''/signers'', route_method = ''GET'', route_handler = GetSignersHandler, limit_disabled = False\<rparr>]"

definition default_body_limit :: nat where
  "default_body_limit = 2097152"

definition serves :: "route \<Rightarrow> string \<Rightarrow> bool" where
  "serves r method \<longleftrightarrow> method = route_method r \<or> method = ''HEAD'' \<and> route_method r = ''GET''"

fun find_route :: "string \<Rightarrow> route list \<Rightarrow> route option" where
  "find_route path [] = None"
| "find_route path (r # rs) = (if route_path r = path then Some r else find_route path rs)"

section \<open>Answers\<close>

datatype http_body = Text string | Json address | Raw bytes | EventStream "(string, string) outcome" | Empty

datatype http_status = OK_200 | ServerErrorStatus status_code | NOT_FOUND | METHOD_NOT_ALLOWED

text \<open>\<open>Err\<close> does not occur; \<open>Panic\<close> is a connection that is closed without an answer.\<close>

type_synonym http_answer = "(unit, http_status \<times> http_body) outcome"

text \<open>The implementation of \<open>IntoResponse\<close> for the \<open>Result\<close> of a handler.\<close>

fun respond :: "('a \<Rightarrow> http_body) \<Rightarrow> (server_error, 'a) outcome \<Rightarrow> http_answer" where
  "respond f (Ok a) = Ok (OK_200, f a)"
| "respond f (Err e) = (let (status, message) = into_response e in Ok (ServerErrorStatus status, Text message))"
| "respond f (Panic p) = Panic p"

text \<open>The body is extracted by \<open>execute\<close> only.\<close>

definition extracted :: "route \<Rightarrow> bytes \<Rightarrow> bool" where
  "extracted r req \<longleftrightarrow> limit_disabled r \<or> length req \<le> default_body_limit"

fun handle_route ::
  "('stdin, 'pt, 'sig, 'rsig, 'chan) host_ext \<Rightarrow> host_server \<Rightarrow> 's attestation_ext \<Rightarrow> 's \<Rightarrow> u32 \<Rightarrow>
   endpoint_handler \<Rightarrow> bytes \<Rightarrow> http_answer" where
  "handle_route h server aext store version ExecuteHandler req =
     respond EventStream (fst (execute_handler h server req))"
| "handle_route h server aext store version GetAddressHandler req = respond Json (fst (get_address h server))"
| "handle_route h server aext store version GetSignersHandler req =
     respond Raw (get_signers h aext store version)"

text \<open>\<open>get\<close> runs its handler for HEAD too, and the body of the answer is removed.\<close>

fun answer_to :: "string \<Rightarrow> http_answer \<Rightarrow> http_answer" where
  "answer_to method (Ok (status, body)) = Ok (status, if method = ''HEAD'' then Empty else body)"
| "answer_to method (Err e) = Err e"
| "answer_to method (Panic p) = Panic p"

definition serve_http ::
  "('stdin, 'pt, 'sig, 'rsig, 'chan) host_ext \<Rightarrow> host_server \<Rightarrow> 's attestation_ext \<Rightarrow> 's \<Rightarrow> u32 \<Rightarrow>
   string \<Rightarrow> string \<Rightarrow> bytes \<Rightarrow> http_answer" where
  "serve_http h server aext store version method path req =
     (case find_route path routes of
        None \<Rightarrow> Ok (NOT_FOUND, Empty)
      | Some r \<Rightarrow>
          if \<not> serves r method then Ok (METHOD_NOT_ALLOWED, Empty)
          else if route_handler r = ExecuteHandler \<and> \<not> extracted r req
          then Ok (ServerErrorStatus PAYLOAD_TOO_LARGE, Text ''length limit exceeded'')
          else answer_to method (handle_route h server aext store version (route_handler r) req))"

section \<open>Lemmas\<close>

lemma serve_http_cases:
  "serve_http h server aext store version method path req =
    (if path = ''/execute'' then
       if method = ''POST'' then answer_to method (respond EventStream (fst (execute_handler h server req)))
       else Ok (METHOD_NOT_ALLOWED, Empty)
     else if path = ''/address'' then
       if method \<in> {''GET'', ''HEAD''} then answer_to method (respond Json (fst (get_address h server)))
       else Ok (METHOD_NOT_ALLOWED, Empty)
     else if path = ''/signers'' then
       if method \<in> {''GET'', ''HEAD''} then answer_to method (respond Raw (get_signers h aext store version))
       else Ok (METHOD_NOT_ALLOWED, Empty)
     else Ok (NOT_FOUND, Empty))"
  by (simp add: serve_http_def routes_def serves_def extracted_def)

text \<open>Which errors a handler can return.\<close>

lemma get_address_errors:
  "fst (get_address h server) = Err e \<Longrightarrow> fst (into_response e) = INTERNAL_SERVER_ERROR"
proof -
  assume "fst (get_address h server) = Err e"
  then obtain socket where "get_address h server = (Err e, socket)" by (cases "get_address h server") auto
  then show ?thesis
    unfolding get_address_def
    by (rule ask_enclave_errors [where P = "\<lambda>e. fst (into_response e) = INTERNAL_SERVER_ERROR"])
      (auto elim!: address_result.elims split: sum.splits option.splits)
qed

lemma address_case_Err:
  "(case x of Inl p \<Rightarrow> Panic p | Inr None \<Rightarrow> Err d | Inr (Some a) \<Rightarrow> Ok (g a)) = Err e \<longleftrightarrow> x = Inr None \<and> e = d"
  by (auto split: sum.split option.split)

lemma unwrapped_no_Err: "(case x of Inl p \<Rightarrow> Panic q | Inr bs \<Rightarrow> Ok bs) \<noteq> Err e"
  by (simp split: sum.split)

lemma signer_of_errors: "signer_of aext version raw = Err e \<Longrightarrow> e = FailedToConvertPublicKeyToAddress"
  by (cases "verify_attestation aext (ra_attestation raw)")
    (auto simp: signer_of_def and_then_eq_Err expect_def address_case_Err split: option.splits if_splits)

lemma collect_signers_errors:
  "collect_signers aext version raws = Err e \<Longrightarrow> e = FailedToConvertPublicKeyToAddress"
  by (induction raws) (auto simp: and_then_eq_Err dest: signer_of_errors)

lemma get_signers_errors:
  "get_signers h aext store version = Err e \<Longrightarrow> fst (into_response e) = INTERNAL_SERVER_ERROR"
  by (auto simp: get_signers_def and_then_eq_Err map_err_eq_Err unwrapped_no_Err dest: collect_signers_errors)

text \<open>The status line of an answer; \<open>None\<close> is a connection that was closed instead.\<close>

definition status_of :: "http_answer \<Rightarrow> http_status option" where
  "status_of answer = (case answer of Ok (status, body) \<Rightarrow> Some status | _ \<Rightarrow> None)"

lemma status_of_Ok [simp]: "status_of (Ok (status, body)) = Some status"
  by (simp add: status_of_def)

lemma status_answer_to [simp]: "status_of (answer_to method answer) = status_of answer"
  by (cases "(method, answer)" rule: answer_to.cases) (simp_all add: status_of_def)

lemma status_respond:
  "status_of (respond f r) =
    (case r of Ok a \<Rightarrow> Some OK_200 | Err e \<Rightarrow> Some (ServerErrorStatus (fst (into_response e))) | Panic p \<Rightarrow> None)"
  by (cases r) (simp_all add: status_of_def split: prod.split)

lemma execute_status:
  "status_of (respond EventStream (fst (execute_handler h server req))) = Some
    (case deserialize (h_tee_requests h) req of
       Inl d \<Rightarrow> ServerErrorStatus BAD_REQUEST
     | Inr rq \<Rightarrow>
         if is_ok (authenticate h (srv_auth_client server) rq) then OK_200
         else ServerErrorStatus UNAUTHORIZED)"
proof (cases "deserialize (h_tee_requests h) req")
  case (Inr rq)
  then show ?thesis
    using authenticate_Err [of h "srv_auth_client server" rq] authenticate_no_panic
    by (cases "authenticate h (srv_auth_client server) rq")
      (auto simp: execute_handler_def status_respond split: prod.splits)
qed (simp add: execute_handler_def status_respond)

section \<open>Properties\<close>

text \<open>
  C15. The status of every answer. A request to the host is answered with 404 exactly off the three
  paths and with 405 exactly for the wrong method on one of them; \<open>POST /execute\<close> is answered with 400
  exactly when its body does not decode and with 401 exactly when it decodes and is not authenticated,
  else with 200, whatever comes of the execution, and never with 500 or by closing the connection; the
  other two are answered with 200 exactly when their handler returns a value, and their errors are all
  500. No body is too large: 413, which \<open>ServerError\<close> has two variants for, is never answered.
\<close>

theorem http_statuses:
  "(let status = status_of (serve_http h server aext store version method path req);
        execution = (method = ''POST'' \<and> path = ''/execute'');
        query = (method \<in> {''GET'', ''HEAD''})
    in
      (status = Some NOT_FOUND \<longleftrightarrow> path \<notin> {''/execute'', ''/address'', ''/signers''}) \<and>
      (status = Some METHOD_NOT_ALLOWED \<longleftrightarrow>
         path = ''/execute'' \<and> \<not> execution \<or> path \<in> {''/address'', ''/signers''} \<and> \<not> query) \<and>
      (status = Some (ServerErrorStatus BAD_REQUEST) \<longleftrightarrow>
         execution \<and> (\<exists>d. deserialize (h_tee_requests h) req = Inl d)) \<and>
      (status = Some (ServerErrorStatus UNAUTHORIZED) \<longleftrightarrow>
         execution \<and> (\<exists>rq. deserialize (h_tee_requests h) req = Inr rq \<and>
           \<not> is_ok (authenticate h (srv_auth_client server) rq))) \<and>
      (status = Some OK_200 \<longleftrightarrow>
         execution \<and> (\<exists>rq. deserialize (h_tee_requests h) req = Inr rq \<and>
           is_ok (authenticate h (srv_auth_client server) rq)) \<or>
         query \<and> path = ''/address'' \<and> is_ok (fst (get_address h server)) \<or>
         query \<and> path = ''/signers'' \<and> is_ok (get_signers h aext store version)) \<and>
      (status = Some (ServerErrorStatus INTERNAL_SERVER_ERROR) \<longleftrightarrow>
         query \<and> path = ''/address'' \<and> (\<exists>e. fst (get_address h server) = Err e) \<or>
         query \<and> path = ''/signers'' \<and> (\<exists>e. get_signers h aext store version = Err e)) \<and>
      status \<noteq> Some (ServerErrorStatus PAYLOAD_TOO_LARGE))"
proof -
  consider "path = ''/execute''" | "path = ''/address''" | "path = ''/signers''"
    | "path \<notin> {''/execute'', ''/address'', ''/signers''}"
    by blast
  then show ?thesis
  proof cases
    case 1
    then show ?thesis
      using execute_status [of h server req] by (auto simp: serve_http_cases Let_def split: sum.splits)
  next
    case 2
    then show ?thesis
      using status_respond [of Json "fst (get_address h server)"] get_address_errors [of h server]
      by (cases "fst (get_address h server)") (auto simp: serve_http_cases Let_def is_ok_def)
  next
    case 3
    then show ?thesis
      using status_respond [of Raw "get_signers h aext store version"] get_signers_errors [of h aext store version]
      by (cases "get_signers h aext store version") (auto simp: serve_http_cases Let_def is_ok_def)
  next
    case 4
    then show ?thesis by (simp add: serve_http_cases Let_def)
  qed
qed

end
