(* ===== verification/Setup_Tool.thy ===== *)
theory Setup_Tool
  imports Host_Launch Contract_Verifier
begin

text \<open>
  The setup command: \<open>host/bin/setup.rs\<close>. It deploys the contracts if asked to, lists the saved
  attestations, verifies each one and registers its signer on the verifier contract.

  The command line parser, the private key format, the hex rendering of addresses, \<open>forge\<close>, the JSON
  file of the deployment and the Ethereum node are parameters. The node is a state \<open>'w\<close> with the two
  requests the loop makes; \<open>node_ok\<close> states what a node does with them.
\<close>

section \<open>Arguments\<close>

record setup_args =
  su_deploy :: bool
  su_anvil :: bool
  su_rpc_url :: string
  su_private_key :: "string option"
  su_etherscan_api_key :: "string option"
  su_etherscan_url :: "string option"
  su_pcr0 :: "string option"
  su_register_signers :: bool
  su_verifier_gateway :: "address option"

definition unwrap_or_env ::
  "(string \<Rightarrow> string option) \<Rightarrow> string option \<Rightarrow> string \<Rightarrow> ('e, string) outcome" where
  "unwrap_or_env env value env_var =
     (case value of
        Some v \<Rightarrow> Ok v
      | None \<Rightarrow> expect (env_var @ '' env var is not set, and was not provided in the Args.'') (env env_var))"

text \<open>The arguments the two ways to deploy have in common at the end.\<close>

definition broadcast_args :: "setup_args \<Rightarrow> string \<Rightarrow> ('e, string list) outcome" where
  "broadcast_args a sender =
     and_then (expect ''Private key is not set'' (su_private_key a)) (\<lambda>pk.
       Ok [''--broadcast'', ''--sender'', sender, ''--private-key'', pk])"

definition deploy_args ::
  "(string \<Rightarrow> string option) \<Rightarrow> (address \<Rightarrow> string) \<Rightarrow> command \<Rightarrow> setup_args \<Rightarrow> string \<Rightarrow> ('e, command) outcome" where
  "deploy_args env show_addr cmd a sender =
     and_then (unwrap_or_env env (su_etherscan_api_key a) ''ETHERSCAN_API_KEY'') (\<lambda>etherscan_api_key.
     and_then (unwrap_or_env env (map_option show_addr (su_verifier_gateway a)) ''SP1_VERIFIER_GATEWAY'')
       (\<lambda>verifier_gateway.
     and_then (broadcast_args a sender) (\<lambda>rest.
       Ok (cmd\<lparr>cmd_env := cmd_env cmd @ [(''SP1_VERIFIER_GATEWAY'', verifier_gateway)],
               cmd_args := cmd_args cmd @ [''script'', ''script/Deploy.s.sol'', ''--rpc-url'', su_rpc_url a,
                 ''--verify'', ''--etherscan-api-key'', etherscan_api_key] @ rest\<rparr>))))"

definition anvil_deploy_args :: "command \<Rightarrow> setup_args \<Rightarrow> string \<Rightarrow> ('e, command) outcome" where
  "anvil_deploy_args cmd a sender =
     and_then (broadcast_args a sender) (\<lambda>rest.
       Ok (cmd\<lparr>cmd_args := cmd_args cmd @
         [''script'', ''script/Deploy.s.sol'', ''--rpc-url'', su_rpc_url a] @ rest\<rparr>))"

text \<open>A path is the list of its components; the manifest directory has a parent.\<close>

definition contracts_path :: "string list \<Rightarrow> u64 \<Rightarrow> string list" where
  "contracts_path manifest_dir chain_id =
     butlast manifest_dir @ [''contracts'', ''deployments'', show_nat (unat chain_id) @ ''.json'']"

section \<open>Registering the signers\<close>

record 'w node =
  node_is_signer :: "'w \<Rightarrow> address \<Rightarrow> string + bool"
  node_add_signer :: "'w \<Rightarrow> address \<Rightarrow> (string + unit) \<times> 'w"

datatype signer_action = Skipped | AlreadyRegistered | Added | FoundValid

text \<open>The checks of the loop on one attestation: the address to register, or none.\<close>

definition attested_signer ::
  "'s attestation_ext \<Rightarrow> string option \<Rightarrow> raw_attestation \<Rightarrow> (unit, address option) outcome" where
  "attested_signer aext pcr0_arg raw =
     (case verify_attestation aext (ra_attestation raw) of
        Inl e \<Rightarrow> Ok None
      | Inr doc \<Rightarrow>
          and_then
            (case pcr0_arg of
               None \<Rightarrow> Ok ()
             | Some p \<Rightarrow>
                 (case hex_decode aext p of
                    Inl e \<Rightarrow> Panic ''Failed to decode pcr0''
                  | Inr pcr0_bytes \<Rightarrow>
                      and_then (expect ''no entry found for key'' (doc_pcrs doc 0)) (\<lambda>p0.
                        if p0 \<noteq> pcr0_bytes then Panic ''PCR0 mismatch'' else Ok ())))
            (\<lambda>_.
          and_then (expect ''Public key is not set in attestation'' (doc_public_key doc)) (\<lambda>pubkey_bytes.
            (case ethereum_address_from_sec1_bytes (addr_of_raw aext) pubkey_bytes of
               Inl p \<Rightarrow> Panic p
             | Inr None \<Rightarrow> Panic ''Failed to derive address from public key''
             | Inr (Some derived_address) \<Rightarrow>
                 if derived_address \<noteq> ra_address raw then Panic ''Address mismatch''
                 else Ok (Some (ra_address raw))))))"

definition setup_one ::
  "'s attestation_ext \<Rightarrow> 'w node \<Rightarrow> setup_args \<Rightarrow> 'w \<Rightarrow> raw_attestation \<Rightarrow>
   (unit, signer_action) outcome \<times> 'w" where
  "setup_one aext nd a w raw =
     (case attested_signer aext (su_pcr0 a) raw of
        Err e \<Rightarrow> (Err e, w)
      | Panic p \<Rightarrow> (Panic p, w)
      | Ok None \<Rightarrow> (Ok Skipped, w)
      | Ok (Some signer) \<Rightarrow>
          (case node_is_signer nd w signer of
             Inl e \<Rightarrow> (Panic ''Failed to check if signer is registered'', w)
           | Inr registered \<Rightarrow>
               if registered then (Ok AlreadyRegistered, w)
               else if su_register_signers a
               then (case node_add_signer nd w signer of
                       (Inl e, w') \<Rightarrow> (Panic ''Failed to add signer'', w')
                     | (Inr _, w') \<Rightarrow> (Ok Added, w'))
               else (Ok FoundValid, w)))"

fun setup_loop ::
  "'s attestation_ext \<Rightarrow> 'w node \<Rightarrow> setup_args \<Rightarrow> 'w \<Rightarrow> raw_attestation list \<Rightarrow>
   (unit, signer_action list) outcome \<times> 'w" where
  "setup_loop aext nd a w [] = (Ok [], w)"
| "setup_loop aext nd a w (raw # raws) =
     (case setup_one aext nd a w raw of
        (Ok r, w') \<Rightarrow>
          (case setup_loop aext nd a w' raws of
             (Ok rs, w'') \<Rightarrow> (Ok (r # rs), w'')
           | (Err e, w'') \<Rightarrow> (Err e, w'')
           | (Panic p, w'') \<Rightarrow> (Panic p, w''))
      | (Err e, w') \<Rightarrow> (Err e, w')
      | (Panic p, w') \<Rightarrow> (Panic p, w'))"

section \<open>The command\<close>

record 'w setup_ext =
  parse_key :: "string \<Rightarrow> address option"
  parse_url :: "string \<Rightarrow> bool"
  environment :: "string \<Rightarrow> string option"
  checksum_address :: "address \<Rightarrow> string"
  forge :: "'w \<Rightarrow> command \<Rightarrow> (string + bool) \<times> 'w"
  chain_id_of :: "'w \<Rightarrow> string + u64"
  deployment_file :: "string list \<Rightarrow> string + address"
  node_at :: "address \<Rightarrow> 'w node"

definition forge_command :: command where
  "forge_command = \<lparr>cmd_program = ''forge'', cmd_args = [], cmd_env = []\<rparr>"

text \<open>The deployment step: nothing, or one run of \<open>forge\<close> that must succeed.\<close>

definition deploy_contracts ::
  "'w setup_ext \<Rightarrow> setup_args \<Rightarrow> string \<Rightarrow> 'w \<Rightarrow> (unit, unit) outcome \<times> 'w" where
  "deploy_contracts sx a sender w =
     (if \<not> su_deploy a then (Ok (), w)
      else
        (case (if \<not> starts_with (su_rpc_url a) ''https://'' then anvil_deploy_args forge_command a sender
               else deploy_args (environment sx) (checksum_address sx) forge_command a sender) of
           Err e \<Rightarrow> (Err e, w)
         | Panic p \<Rightarrow> (Panic p, w)
         | Ok cmd \<Rightarrow>
             (case forge sx w cmd of
                (Inl e, w') \<Rightarrow> (Panic ''Failed to run forge script'', w')
              | (Inr success, w') \<Rightarrow>
                  if success then (Ok (), w') else (Panic ''Failed to deploy contracts'', w'))))"

text \<open>The start: the key, from the arguments or the environment, and the URL of the node.\<close>

definition setup_wallet ::
  "'w setup_ext \<Rightarrow> setup_args \<Rightarrow> (unit, string \<times> address) outcome" where
  "setup_wallet sx args0 =
     and_then (unwrap_or_env (environment sx) (su_private_key args0) ''PRIVATE_KEY'') (\<lambda>pk.
     and_then (expect ''Invalid private key provided'' (parse_key sx pk)) (\<lambda>sender.
       if parse_url sx (su_rpc_url args0) then Ok (pk, sender) else Panic ''Failed to parse RPC url''))"

text \<open>The end: the contract of this chain, and the signers.\<close>

definition setup_signers ::
  "'w setup_ext \<Rightarrow> 's attestation_ext \<Rightarrow> bool \<Rightarrow> 's \<Rightarrow> string list \<Rightarrow> setup_args \<Rightarrow> 'w \<Rightarrow>
   (unit, signer_action list) outcome \<times> 'w" where
  "setup_signers sx aext production store manifest_dir a w =
     (case chain_id_of sx w of
        Inl e \<Rightarrow> (Panic ''Failed to get chain id'', w)
      | Inr chain_id \<Rightarrow>
          (case deployment_file sx (contracts_path manifest_dir chain_id) of
             Inl e \<Rightarrow> (Panic ''Failed to load deployment.json'', w)
           | Inr tee_verifier \<Rightarrow>
               (case get_raw_attestations aext production store of
                  Err e \<Rightarrow> (Panic ''Failed to get attestations'', w)
                | Panic p \<Rightarrow> (Panic p, w)
                | Ok attestations \<Rightarrow> setup_loop aext (node_at sx tee_verifier) a w attestations)))"

definition setup_main ::
  "'w setup_ext \<Rightarrow> 's attestation_ext \<Rightarrow> bool \<Rightarrow> 's \<Rightarrow> string list \<Rightarrow> setup_args \<Rightarrow> 'w \<Rightarrow>
   (unit, signer_action list) outcome \<times> 'w" where
  "setup_main sx aext production store manifest_dir args0 w =
     (case setup_wallet sx args0 of
        Err e \<Rightarrow> (Err e, w)
      | Panic p \<Rightarrow> (Panic p, w)
      | Ok (pk, sender) \<Rightarrow>
          let a = (if su_private_key args0 = None then args0\<lparr>su_private_key := Some pk\<rparr> else args0) in
          (case deploy_contracts sx a (checksum_address sx sender) w of
             (Err e, w') \<Rightarrow> (Err e, w')
           | (Panic p, w') \<Rightarrow> (Panic p, w')
           | (Ok _, w') \<Rightarrow> setup_signers sx aext production store manifest_dir a w'))"

section \<open>What is assumed of the node\<close>

text \<open>
  \<open>view\<close> is the verifier contract in the node's state. A query that is answered is answered from it;
  sending a transaction either applies the contract's call for the sender or changes nothing, and a
  confirmed transaction whose call does not revert was applied. Nobody else writes to the contract
  during the run.
\<close>

definition node_ok :: "'w node \<Rightarrow> ('w \<Rightarrow> verifier) \<Rightarrow> address \<Rightarrow> bool" where
  "node_ok nd view sender \<longleftrightarrow>
     (\<forall>w a b. node_is_signer nd w a = Inr b \<longrightarrow> b = isSigner (view w) a) \<and>
     (\<forall>w a r w'. node_add_signer nd w a = (r, w') \<longrightarrow>
        view w' = view w \<or> (\<exists>ev. contract_call sender (AddSigner a) (view w) = Ok (view w', ev))) \<and>
     (\<forall>w a w'. node_add_signer nd w a = (Inr (), w') \<and> is_ok (contract_call sender (AddSigner a) (view w)) \<longrightarrow>
        (\<exists>ev. contract_call sender (AddSigner a) (view w) = Ok (view w', ev)))"

section \<open>Lemmas\<close>

text \<open>What makes an attestation the attestation of a signer.\<close>

definition attests ::
  "'s attestation_ext \<Rightarrow> string option \<Rightarrow> raw_attestation \<Rightarrow> address \<Rightarrow> bool" where
  "attests aext pcr0_arg raw signer \<longleftrightarrow>
     ra_address raw = signer \<and>
     (\<exists>doc pk. validate_doc aext (ra_attestation raw) = Inr doc \<and> doc_public_key doc = Some pk \<and>
        length pk = 65 \<and> pk ! 0 = 0x04 \<and> addr_of_raw aext (drop 1 pk) = Inr signer \<and>
        (case pcr0_arg of None \<Rightarrow> True
         | Some p \<Rightarrow> \<exists>b. hex_decode aext p = Inr b \<and> doc_pcrs doc 0 = Some b))"

lemma pcr0_check_Ok:
  "(case hex_decode aext p of
      Inl e \<Rightarrow> Panic m
    | Inr b \<Rightarrow> and_then (expect m' x) (\<lambda>p0. if p0 \<noteq> b then Panic m'' else Ok ())) = Ok u \<longleftrightarrow>
   (\<exists>b. hex_decode aext p = Inr b \<and> x = Some b)"
  by (cases "hex_decode aext p"; cases x) auto

lemma derive_Ok:
  "(case x of Inl p \<Rightarrow> Panic p | Inr None \<Rightarrow> Panic m
    | Inr (Some d) \<Rightarrow> if d \<noteq> a then Panic m' else Ok (Some a)) = Ok r \<longleftrightarrow>
   x = Inr (Some a) \<and> r = Some a"
  by (cases x rule: sum.exhaust; cases "projr x") (auto split: sum.splits)

lemma attested_signer_Some:
  "attested_signer aext pcr0_arg raw = Ok (Some signer) \<longleftrightarrow> attests aext pcr0_arg raw signer"
proof (cases "validate_doc aext (ra_attestation raw)")
  case (Inr doc)
  then show ?thesis
    by (cases pcr0_arg)
      (auto simp: attested_signer_def attests_def verify_attestation_def and_then_eq_Ok pcr0_check_Ok
        derive_Ok sec1_Some)
qed (simp add: attested_signer_def attests_def verify_attestation_def)

text \<open>One round: a signer is added only if it is attested, and the rest stays.\<close>

lemma setup_one_adds:
  assumes "node_ok nd view sender" and "setup_one aext nd a w raw = (r, w')"
  shows "view w' = view w \<or>
    (\<exists>signer ev. su_register_signers a \<and> attests aext (su_pcr0 a) raw signer \<and>
       contract_call sender (AddSigner signer) (view w) = Ok (view w', ev))"
proof (cases "w' = w")
  case False
  then obtain signer e where "attested_signer aext (su_pcr0 a) raw = Ok (Some signer)"
      and "su_register_signers a" and "node_add_signer nd w signer = (e, w')"
    using assms(2)
    by (auto simp: setup_one_def split: outcome.splits option.splits sum.splits if_splits prod.splits)
  then show ?thesis using assms(1) unfolding attested_signer_Some node_ok_def by blast
qed simp

lemma setup_one_inv:
  assumes ok: "node_ok nd view sender" and inv: "verifier_inv (view w)"
    and one: "setup_one aext nd a w raw = (r, w')"
  shows "verifier_inv (view w') \<and> vf_owner (view w') = vf_owner (view w) \<and>
    (\<forall>s. isSigner (view w') s \<longrightarrow> isSigner (view w) s \<or>
       (su_register_signers a \<and> sender = vf_owner (view w) \<and> attests aext (su_pcr0 a) raw s)) \<and>
    (\<forall>s. isSigner (view w) s \<longrightarrow> isSigner (view w') s)"
  using setup_one_adds [OF ok one] inv by (auto dest: addSigner_effect)

text \<open>A round that ends well leaves its signer registered, or its transaction could only revert.\<close>

lemma setup_one_registers:
  assumes ok: "node_ok nd view sender" and inv: "verifier_inv (view w)"
    and one: "setup_one aext nd a w raw = (Ok r, w')"
    and "su_register_signers a" and "sender = vf_owner (view w)" and "signer \<noteq> 0"
    and att: "attests aext (su_pcr0 a) raw signer"
  shows "isSigner (view w') signer"
proof (cases "isSigner (view w) signer")
  case True
  then show ?thesis using setup_one_inv [OF ok inv one] by blast
next
  case False
  then have "is_ok (contract_call sender (AddSigner signer) (view w))"
    unfolding addSigner_is_ok [OF inv] using assms(5,6) by blast
  moreover have "node_add_signer nd w signer = (Inr (), w')"
    using one False ok assms(4)
    by (auto simp: setup_one_def attested_signer_Some [THEN iffD2, OF att] node_ok_def
        split: sum.splits if_splits prod.splits)
  ultimately have "\<exists>ev. contract_call sender (AddSigner signer) (view w) = Ok (view w', ev)"
    using ok by (simp add: node_ok_def)
  then show ?thesis using addSigner_effect [OF inv] by blast
qed

lemma setup_loop_inv:
  assumes ok: "node_ok nd view sender"
  shows "verifier_inv (view w) \<Longrightarrow> setup_loop aext nd a w raws = (r, w') \<Longrightarrow>
    verifier_inv (view w') \<and> vf_owner (view w') = vf_owner (view w) \<and>
    (\<forall>s. isSigner (view w') s \<longrightarrow> isSigner (view w) s \<or>
       (su_register_signers a \<and> sender = vf_owner (view w) \<and>
        (\<exists>raw \<in> set raws. attests aext (su_pcr0 a) raw s))) \<and>
    (\<forall>s. isSigner (view w) s \<longrightarrow> isSigner (view w') s)"
proof (induction raws arbitrary: w r)
  case (Cons raw raws)
  obtain r1 w1 where one: "setup_one aext nd a w raw = (r1, w1)" by fastforce
  note one_inv = setup_one_inv [OF ok Cons.prems(1) one]
  show ?case
  proof (cases r1)
    case (Ok x)
    obtain r2 where "setup_loop aext nd a w1 raws = (r2, w')"
      using Cons.prems(2) one Ok by (auto split: prod.splits outcome.splits)
    with Cons.IH [of w1 r2] one_inv show ?thesis by auto
  qed (use Cons.prems(2) one one_inv in auto)
qed auto

lemma setup_loop_registers:
  assumes ok: "node_ok nd view sender" and "su_register_signers a"
  shows "verifier_inv (view w) \<Longrightarrow> setup_loop aext nd a w raws = (Ok rs, w') \<Longrightarrow>
    sender = vf_owner (view w) \<Longrightarrow>
    length rs = length raws \<and>
    (\<forall>raw \<in> set raws. \<forall>s. attests aext (su_pcr0 a) raw s \<and> s \<noteq> 0 \<longrightarrow> isSigner (view w') s)"
proof (induction raws arbitrary: w rs)
  case (Cons raw raws)
  obtain r1 w1 rs2 where one: "setup_one aext nd a w raw = (Ok r1, w1)"
      and two: "setup_loop aext nd a w1 raws = (Ok rs2, w')" and rs: "rs = r1 # rs2"
    using Cons.prems(2) by (auto split: prod.splits outcome.splits)
  have inv: "verifier_inv (view w1)" "vf_owner (view w1) = vf_owner (view w)"
    using setup_one_inv [OF ok Cons.prems(1) one] by auto
  have "isSigner (view w') s" if "attests aext (su_pcr0 a) raw s" "s \<noteq> 0" for s
    using setup_one_registers [OF ok Cons.prems(1) one assms(2) Cons.prems(3) that(2,1)]
      setup_loop_inv [OF ok inv(1) two] by blast
  then show ?case using Cons.IH [OF inv(1) two] inv(2) Cons.prems(3) rs by auto
qed simp

text \<open>Attested signers that are all registered leave nothing to do.\<close>

lemma setup_loop_idle:
  assumes ok: "node_ok nd view sender"
  shows "verifier_inv (view w) \<Longrightarrow>
    \<forall>raw \<in> set raws. \<forall>s. attests aext (su_pcr0 a) raw s \<and> s \<noteq> 0 \<longrightarrow> isSigner (view w) s \<Longrightarrow>
    setup_loop aext nd a w raws = (r, w') \<Longrightarrow> view w' = view w"
proof (induction raws arbitrary: w r)
  case (Cons raw raws)
  obtain r1 w1 where one: "setup_one aext nd a w raw = (r1, w1)" by fastforce
  have same: "view w1 = view w"
  proof (rule disjE [OF setup_one_adds [OF ok one]])
    assume "\<exists>signer ev. su_register_signers a \<and> attests aext (su_pcr0 a) raw signer \<and>
      contract_call sender (AddSigner signer) (view w) = Ok (view w1, ev)"
    then obtain signer ev where att: "attests aext (su_pcr0 a) raw signer"
        and call: "contract_call sender (AddSigner signer) (view w) = Ok (view w1, ev)"
      by blast
    have "signer \<noteq> 0" "\<not> isSigner (view w) signer"
      using addSigner_effect [OF Cons.prems(1) call] by simp_all
    with att Cons.prems(2) show ?thesis by simp
  qed simp
  show ?case
  proof (cases r1)
    case (Ok x)
    obtain r2 where "setup_loop aext nd a w1 raws = (r2, w')"
      using Cons.prems(3) one Ok by (auto split: prod.splits outcome.splits)
    with Cons.IH [of w1 r2] Cons.prems(1,2) same show ?thesis by auto
  qed (use Cons.prems(3) one same in auto)
qed simp

text \<open>Without a deployment, the command is the loop over the listed attestations or changes nothing.\<close>

lemma setup_main_loop:
  assumes "setup_main sx aext production store manifest_dir args0 w = (r, w')" and "\<not> su_deploy args0"
  shows "(w' = w \<and> \<not> is_ok r) \<or>
    (\<exists>tee_verifier a raws. get_raw_attestations aext production store = Ok raws \<and>
       su_pcr0 a = su_pcr0 args0 \<and> su_register_signers a = su_register_signers args0 \<and>
       setup_loop aext (node_at sx tee_verifier) a w raws = (r, w'))"
proof (cases "setup_wallet sx args0")
  case (Ok x)
  obtain pk sender where x: "x = (pk, sender)" by fastforce
  define a where "a = (if su_private_key args0 = None then args0\<lparr>su_private_key := Some pk\<rparr> else args0)"
  have a: "\<not> su_deploy a" "su_pcr0 a = su_pcr0 args0" "su_register_signers a = su_register_signers args0"
    using assms(2) by (simp_all add: a_def)
  then have "deploy_contracts sx a (checksum_address sx sender) w = (Ok (), w)"
    by (simp add: deploy_contracts_def)
  then have "setup_signers sx aext production store manifest_dir a w = (r, w')"
    using assms(1) by (simp add: setup_main_def Ok x a_def [symmetric] Let_def)
  then show ?thesis
    using a by (auto simp: setup_signers_def split: sum.split_asm outcome.split_asm)
qed (use assms(1) in \<open>auto simp: setup_main_def\<close>)

section \<open>A concrete run\<close>

text \<open>A node that is the contract itself, and a bucket with the attestation of the concrete enclave.\<close>

definition toy_node :: "verifier node" where
  "toy_node = \<lparr>node_is_signer = (\<lambda>w a. Inr (isSigner w a)),
     node_add_signer = (\<lambda>w a. case contract_call 1 (AddSigner a) w of
         Ok (d, ev) \<Rightarrow> (Inr (), d) | _ \<Rightarrow> (Inl ''execution reverted'', w))\<rparr>"

lemma toy_node_ok: "node_ok toy_node id 1"
  by (auto simp: node_ok_def toy_node_def is_ok_def split: outcome.splits)

definition toy_setup :: "verifier setup_ext" where
  "toy_setup = \<lparr>parse_key = (\<lambda>s. Some 1), parse_url = (\<lambda>s. True), environment = (\<lambda>s. None),
     checksum_address = (\<lambda>a. ''0x1''), forge = (\<lambda>w cmd. (Inr True, w)), chain_id_of = (\<lambda>w. Inr 31337),
     deployment_file = (\<lambda>p. Inr 99), node_at = (\<lambda>a. toy_node)\<rparr>"

definition toy_setup_args :: setup_args where
  "toy_setup_args = \<lparr>su_deploy = False, su_anvil = False, su_rpc_url = ''http://localhost:8545'', su_private_key = Some ''0xac'',
     su_etherscan_api_key = None, su_etherscan_url = None, su_pcr0 = Some ''9'', su_register_signers = True, su_verifier_gateway = None\<rparr>"

definition new_contract :: verifier where
  "new_contract = \<lparr>vf_owner = 1, vf_signers = signers_empty\<rparr>"

lemma new_contract_inv: "verifier_inv (id new_contract)"
  using signers.invar_empty signers.member_empty
  by (simp add: verifier_inv_def new_contract_def isSigner_def)

abbreviation toy_bucket :: "(string \<times> bytes) list" where
  "toy_bucket \<equiv> [(replicate 7 CHR ''x'', stored_doc)]"

lemma toy_raw_attestations:
  "get_raw_attestations toy_aext True toy_bucket = Ok [\<lparr>ra_address = 7, ra_attestation = stored_doc\<rparr>]"
  by (simp add: get_raw_attestations_def fetch_object_def toy_aext_def)

lemma toy_attests: "attests toy_aext (Some ''9'') \<lparr>ra_address = 7, ra_attestation = stored_doc\<rparr> 7"
  by (simp add: attests_def toy_aext_def stored_doc_def toy_address_7 of_char_def)

lemma toy_setup_run:
  "setup_main toy_setup toy_aext True toy_bucket [''ws'', ''host''] toy_setup_args new_contract =
     (Ok [Added], toy_contract)"
proof -
  have signer: "attested_signer toy_aext (Some ''9'') \<lparr>ra_address = 7, ra_attestation = stored_doc\<rparr> = Ok (Some 7)"
    using toy_attests by (simp add: attested_signer_Some)
  have "node_add_signer toy_node new_contract 7 = (Inr (), toy_contract)"
    by (simp add: toy_node_def contract_defs new_contract_def map_addSigner_def checked_sub_def
        signers_empty_def toy_contract_def Let_def)
  moreover have "node_is_signer toy_node new_contract 7 = Inr False"
    by (simp add: toy_node_def new_contract_def isSigner_def map_isSigner_def signers_empty_def)
  ultimately show ?thesis
    by (simp add: setup_main_def setup_wallet_def setup_signers_def toy_setup_def toy_setup_args_def unwrap_or_env_def
        deploy_contracts_def toy_raw_attestations setup_one_def signer Let_def)
qed

section \<open>Properties\<close>





end
