(* ===== verification/Validate_Tool.thy ===== *)
theory Validate_Tool
  imports Attestations Contract_Verifier
begin

text \<open>
  The validation command: \<open>host/bin/validate_signers.rs\<close>. It checks the saved attestation of one
  signer, or of every signer a verifier contract lists, against a version and a PCR0 value. The RPC
  request that lists the signers is a parameter; a panic is how the command reports a bad signer.
\<close>

datatype validate_command =
    SignerCommand address string u32
  | ContractCommand address string u32 string

datatype verdict = Validated | NotForVersion

text \<open>The body of the loop: a signer of another version is skipped, any other error is a panic.\<close>

definition validate_one ::
  "'s attestation_ext \<Rightarrow> bool \<Rightarrow> 's \<Rightarrow> u32 \<Rightarrow> string \<Rightarrow> address \<Rightarrow> (unit, verdict) outcome" where
  "validate_one aext production store version pcr0_arg signer =
     (case verify_attestation_for_signer aext production store signer version pcr0_arg of
        Ok _ \<Rightarrow> Ok Validated
      | Err (VersionMismatch _ _) \<Rightarrow> Ok NotForVersion
      | Err e \<Rightarrow> Panic ''Failed to validate signer''
      | Panic p \<Rightarrow> Panic p)"

fun validate_signers ::
  "'s attestation_ext \<Rightarrow> bool \<Rightarrow> 's \<Rightarrow> u32 \<Rightarrow> string \<Rightarrow> address list \<Rightarrow>
   (unit, (address \<times> verdict) list) outcome" where
  "validate_signers aext production store version pcr0_arg [] = Ok []"
| "validate_signers aext production store version pcr0_arg (signer # ss) =
     and_then (validate_one aext production store version pcr0_arg signer) (\<lambda>v.
     and_then (validate_signers aext production store version pcr0_arg ss) (\<lambda>vs.
       Ok ((signer, v) # vs)))"

text \<open>\<open>main\<close>; \<open>list_signers\<close> is the call of \<open>getSigners\<close> on the contract behind the URL.\<close>

fun validate_main ::
  "'s attestation_ext \<Rightarrow> bool \<Rightarrow> 's \<Rightarrow> (string \<Rightarrow> bool) \<Rightarrow> (string \<Rightarrow> address \<Rightarrow> string + address list) \<Rightarrow>
   validate_command \<Rightarrow> (unit, (address \<times> verdict) list) outcome" where
  "validate_main aext production store url_ok list_signers (SignerCommand signer pcr0_arg version) =
     (case verify_attestation_for_signer aext production store signer version pcr0_arg of
        Ok _ \<Rightarrow> Ok [(signer, Validated)]
      | Err e \<Rightarrow> Panic ''called Result::unwrap() on an Err value''
      | Panic p \<Rightarrow> Panic p)"
| "validate_main aext production store url_ok list_signers (ContractCommand contract_addr rpc_url version pcr0_arg) =
     (if \<not> url_ok rpc_url then Panic ''called Result::unwrap() on an Err value (ParseError)''
      else (case list_signers rpc_url contract_addr of
              Inl e \<Rightarrow> Panic ''called Result::unwrap() on an Err value (RPC)''
            | Inr ss \<Rightarrow> validate_signers aext production store version pcr0_arg ss))"

lemma validate_one_Ok:
  "validate_one aext production store version pcr0_arg signer = Ok v \<longleftrightarrow>
   (case v of
      Validated \<Rightarrow> verify_attestation_for_signer aext production store signer version pcr0_arg = Ok ()
    | NotForVersion \<Rightarrow> \<exists>x y. verify_attestation_for_signer aext production store signer version pcr0_arg =
        Err (VersionMismatch x y))"
  by (auto simp: validate_one_def split: outcome.splits attestation_verification_error.splits verdict.splits)

lemma validate_signers_Ok:
  "validate_signers aext production store version pcr0_arg ss = Ok vs \<longleftrightarrow>
   map fst vs = ss \<and> (\<forall>(s, v) \<in> set vs. validate_one aext production store version pcr0_arg s = Ok v)"
proof (induction ss arbitrary: vs)
  case (Cons s ss)
  show ?case
    unfolding validate_signers.simps and_then_eq_Ok Cons.IH
    by (cases vs) auto
qed auto

lemma check_document_VersionMismatch:
  "(\<exists>x y. check_document aext signer version pcr0_arg doc = Err (VersionMismatch x y)) \<longleftrightarrow>
   (\<exists>p0 ud. doc_pcrs doc 0 = Some p0 \<and> hex_encode aext p0 = erase_0x pcr0_arg \<and>
      doc_user_data doc = Some ud \<and> ud \<noteq> to_le_bytes version \<and> utf8_ok ud)"
proof -
  show ?thesis
  proof (cases "doc_pcrs doc 0")
    case (Some p0)
    show ?thesis
    proof (cases "hex_encode aext p0 = erase_0x pcr0_arg")
      case True
      show ?thesis
      proof (cases "doc_user_data doc")
        case (Some ud)
        then show ?thesis
          using \<open>doc_pcrs doc 0 = Some p0\<close> True
          by (cases "doc_public_key doc"; cases "ud = to_le_bytes version")
            (auto simp: check_document_def from_utf8_def expect_def ok_or_def
              split: sum.splits option.splits if_splits)
      qed (use Some True in \<open>simp add: check_document_def\<close>)
    qed (use Some in \<open>simp add: check_document_def\<close>)
  qed (simp add: check_document_def)
qed

lemma verify_for_signer_VersionMismatch:
  "(\<exists>x y. verify_attestation_for_signer aext production store signer version pcr0_arg =
      Err (VersionMismatch x y)) \<longleftrightarrow>
   (\<exists>bs doc. s3_get aext store (S3_BUCKET production) (show_address aext signer) = Inr (Inr bs) \<and>
      validate_doc aext bs = Inr doc \<and>
      (\<exists>x y. check_document aext signer version pcr0_arg doc = Err (VersionMismatch x y)))"
  by (auto simp: verify_attestation_for_signer_def verify_attestation_def split: sum.splits)

section \<open>Properties\<close>

text \<open>
  C28. What a successful validation of a contract means. The command ends without a panic exactly
  when the contract's signers could be listed and every one of them has, under its own address, a
  saved document that validates and carries the given PCR0; and each is reported in order, as
  validated when the document is of the given version and for a key whose address it is, as skipped
  when it is of another version whose four bytes happen to be UTF-8 (of a skipped signer the key is
  not checked; another version that is not UTF-8 aborts the command).
\<close>

theorem validate_contract_accepts_iff:
  "validate_main aext production store url_ok list_signers
      (ContractCommand contract_addr rpc_url version pcr0_arg) = Ok vs \<longleftrightarrow>
   url_ok rpc_url \<and> list_signers rpc_url contract_addr = Inr (map fst vs) \<and>
   (\<forall>(s, v) \<in> set vs. \<exists>bs doc p0 ud.
      s3_get aext store (S3_BUCKET production) (show_address aext s) = Inr (Inr bs) \<and>
      validate_doc aext bs = Inr doc \<and> doc_pcrs doc 0 = Some p0 \<and>
      hex_encode aext p0 = erase_0x pcr0_arg \<and> doc_user_data doc = Some ud \<and>
      (case v of
         Validated \<Rightarrow> ud = to_le_bytes version \<and>
           (\<exists>pk. doc_public_key doc = Some pk \<and> length pk = 65 \<and> pk ! 0 = 0x04 \<and>
              addr_of_raw aext (drop 1 pk) = Inr s)
       | NotForVersion \<Rightarrow> ud \<noteq> to_le_bytes version \<and> utf8_ok ud))"
proof -
  have one: "validate_one aext production store version pcr0_arg s = Ok v \<longleftrightarrow>
      (\<exists>bs doc p0 ud.
        s3_get aext store (S3_BUCKET production) (show_address aext s) = Inr (Inr bs) \<and>
        validate_doc aext bs = Inr doc \<and> doc_pcrs doc 0 = Some p0 \<and>
        hex_encode aext p0 = erase_0x pcr0_arg \<and> doc_user_data doc = Some ud \<and>
        (case v of
           Validated \<Rightarrow> ud = to_le_bytes version \<and>
             (\<exists>pk. doc_public_key doc = Some pk \<and> length pk = 65 \<and> pk ! 0 = 0x04 \<and>
                addr_of_raw aext (drop 1 pk) = Inr s)
         | NotForVersion \<Rightarrow> ud \<noteq> to_le_bytes version \<and> utf8_ok ud))" for s v
    by (cases v)
      (auto simp: validate_one_Ok verify_for_signer_Ok check_document_Ok
        verify_for_signer_VersionMismatch check_document_VersionMismatch)
  show ?thesis
    unfolding validate_main.simps
    by (cases "list_signers rpc_url contract_addr") (auto simp: validate_signers_Ok one)
qed

theorem validate_contract_accepts_iff_witness:
  "validate_main toy_aext True [(replicate 7 CHR ''x'', stored_doc)] (\<lambda>u. True) (\<lambda>u c. Inr [7])
     (ContractCommand 99 ''http'' 1 ''0x9'') = Ok [(7, Validated)]"
  unfolding validate_contract_accepts_iff
  by (simp add: toy_aext_def stored_doc_def to_le_bytes_def to_be_bytes_def toy_address_7
      char_of_def bit_0)

end
