(* ===== verification/Spec2Isabelle.thy ===== *)
theory Spec2Isabelle
  imports Enclave_Boot Enclave_Concurrency Enclave_Ffi Example_Client Host_Enclave Host_Http Setup_Tool Validate_Tool
begin

text \<open>
  SP1 TEE: a verification development of \<open>succinctlabs/sp1-tee\<close>.

  \<^bold>\<open>The program.\<close> An enclave (\<open>enclave/\<close>) holds a signing key, executes SP1 programs and signs their
  outputs. A host (\<open>host/\<close>) starts it, relays requests to it over a framed vsock stream (\<open>common/\<close>),
  and saves its attestation documents in a bucket. Commands on the host side (\<open>host/bin/\<close>) register
  attested signers on a verifier contract (\<open>contracts/\<close>) and validate the registered ones; the
  contract accepts a proof that a registered signer has signed and a gateway accepts.

  \<^bold>\<open>The theories\<close>, in the order of their imports:
  \<^item> \<open>Tee_Prelude\<close>: machine types, the outcome of a Rust function (\<open>Ok\<close>, \<open>Err\<close>, \<open>Panic\<close>), byte order,
    strings. \<open>Interfaces\<close>: the locales \<open>transition_system\<close>, \<open>guarded_system\<close> (a mutex and its critical
    section), \<open>framing\<close> (payloads on a byte stream) and \<open>member_set\<close> (a set kept in storage).
  \<^item> \<open>Messages\<close> (\<open>common/src/lib.rs\<close>) and \<open>Communication\<close> (\<open>common/src/communication.rs\<close>): the two
    enums; \<open>send\<close> and \<open>recv\<close> over a socket whose state is what was written, how much was read and what
    the peer makes available. They interpret \<open>framing\<close>; round trip, order, no acceptance of a partial
    send. Streams are an instance of the class \<open>order\<close> (later is greater), and every operation moves
    its stream forward.
  \<^item> \<open>Enclave_Server\<close> (\<open>enclave/src/server.rs\<close>, \<open>main.rs\<close>): one connection, with \<open>execute\<close>,
    \<open>attest_signing_key\<close>, \<open>handle_message\<close> and the loop \<open>handle_connection\<close>; \<open>replies_of\<close> is its
    sequential specification, and \<open>reads\<close> what an arbitrary host was understood to ask.
    \<open>Enclave_Boot\<close> (\<open>main\<close>, \<open>Server::run\<close>): the bind and the accept loop.
    \<open>Enclave_Concurrency\<close>: all connections as a step relation around \<open>execution_guard\<close>; it interprets \<open>guarded_system\<close> and refines the same specification.
    \<open>Enclave_Ffi\<close> (\<open>enclave/src/ffi/bytebuf.rs\<close>, \<open>enclave/build.rs\<close>): the byte buffer shared with C, over
    a heap, and the order in which the C libraries are linked.
  \<^item> \<open>Host_Address\<close> (\<open>host/src/lib.rs\<close>), \<open>Host_Stream\<close> (\<open>host/src/server/stream.rs\<close>) with the enclave at
    the other end as \<open>enclave_network\<close>, \<open>Attestations\<close> (\<open>host/src/attestations.rs\<close>),
    \<open>Attestation_Task\<close> (\<open>spawn_attestation_task\<close>), \<open>Host_Errors\<close> (\<open>ServerError\<close>, \<open>host/src/api.rs\<close>),
    \<open>Host_Auth\<close> (\<open>host/src/server/auth.rs\<close>), \<open>Host_Server\<close> (the handlers of \<open>host/bin/server.rs\<close>),
    \<open>Host_Concurrency\<close> (all \<open>/execute\<close> requests around \<open>execution_mutex\<close>; the second interpretation of
    \<open>guarded_system\<close>), \<open>Host_Launch\<close> (start and stop, \<open>host/src/server.rs\<close>) and \<open>Host_Http\<close> (the routes of
    \<open>main\<close> in \<open>host/bin/server.rs\<close> and the status of every answer).
  \<^item> \<open>Host_Enclave\<close>: the requests of the host and the connections of the enclave in one step relation
    (the third interpretation of \<open>transition_system\<close> beside the guarded ones), with failing connections
    and clients that go away. Its runs are made of runs of the two parts (\<open>system_runs\<close>), so their
    theorems hold of the whole; the lemmas on \<open>can_answer\<close> and \<open>turn_comes\<close> build the run that answers a
    request, and \<open>all_given_up\<close> the run that fills the enclave with abandoned ones.
  \<^item> \<open>Contract_Signers\<close> (\<open>SignersMap.sol\<close>, interprets \<open>member_set\<close>) and \<open>Contract_Verifier\<close>
    (\<open>SimpleOwnable.sol\<close>, \<open>SP1TeeVerifier.sol\<close>; interprets \<open>transition_system\<close> for its storage and
    \<open>framing\<close> for the version inside the proof bytes). \<open>read_proof\<close> and \<open>verify_fields\<close> are the reference
    that \<open>verifyProof\<close> and its slices are equal to.
  \<^item> \<open>Setup_Tool\<close> (\<open>host/bin/setup.rs\<close>), \<open>Validate_Tool\<close> (\<open>host/bin/validate_signers.rs\<close>) and
    \<open>Example_Client\<close> (\<open>host/examples/fibonacci.rs\<close>, against the model of the contract).
  \<^item> This theory: the properties that span them, from the enclave's signature to the contract and from
    the enclave's key to the list of signers.

  \<^bold>\<open>How state and effects are modelled.\<close> A socket, a bucket, a node or a heap is a value passed and
  returned. A Rust panic is the outcome \<open>Panic\<close>, an early return \<open>Err\<close>; a Solidity revert is \<open>Err\<close>. Where
  tasks interleave, a step relation says what one task does between two points at which it can be
  suspended. Code of other crates (the SP1 prover, k256, Keccak, bincode, the Nitro driver and document
  validation, S3, tonic, the Ethereum node, forge, clap) is a parameter; what is assumed of it is a named
  predicate (\<open>bincode_ok\<close>, \<open>nsm_attests\<close>, \<open>s3_ok\<close>, \<open>bucket_lists\<close>, \<open>raw_address_ok\<close>, \<open>point_ops_ok\<close>,
  \<open>node_ok\<close>, \<open>keccak_ok\<close>, \<open>chain_matches\<close>, \<open>allocator_ok\<close>), which a concrete instance satisfies in the
  witnesses.

  \<^bold>\<open>Termination.\<close> The only loop that may run for ever, the connection's, is a \<open>partial_function\<close>; that it
  returns is proved for every input of finite length, and what it has done when it returns, for every
  host, by the induction rule of the fixed point. The other loops run over lists.

  \<^bold>\<open>Not modelled.\<close> What is logged (only the configuration of the tracing is, in \<open>Host_Address\<close>); the
  parsing of command lines; the inside of axum, of which \<open>Host_Http\<close> uses the documented routing, and of
  the S3 clients beyond their settings; the contract bindings, which a macro generates; the shell scripts
  and the Foundry scripts. The two functions of the enclave that are \<open>todo!()\<close> are panics here too. In
  \<open>Host_Enclave\<close> the steps carry messages, not bytes: that a connection carries a list of messages is
  \<open>Communication\<close>; that the enclave decodes what the host encodes, and what it makes of a frame that is
  cut off, is \<open>Host_Stream\<close>. The properties of liveness say that a run exists that answers; that the
  scheduler takes it is not stated. Time is modelled in the attestation task only, so the timeouts of
  the gRPC endpoint are settings without effect. Storage arrays are assumed shorter than \<open>2 ^ 256\<close>.
\<close>

section \<open>The parts together\<close>

text \<open>The host \<open>h\<close> is connected to the enclave \<open>srv\<close>, and their codecs agree.\<close>

definition in_front_of ::
  "('stdin, 'pt, 'sig, 'rsig, 'chan) host_ext \<Rightarrow> ('key, 'stdin, 'vk, 'pt, 'sig) enclave_ext \<Rightarrow> bool \<Rightarrow>
   'key enclave_server \<Rightarrow> u32 \<Rightarrow> bool" where
  "in_front_of h ext debug srv cid \<longleftrightarrow>
     bincode_ok (h_requests h) \<and> bincode_ok (h_responses h) \<and>
     encodable (h_requests h) CloseSession \<and>
     h_net h = enclave_network ext debug (h_requests h) (h_responses h) srv cid"

text \<open>
  The chain and the enclave use the same hash, and \<open>ecrecover\<close> undoes the enclave's signing: for a
  recovery id of 0 or 1 it returns the address of the key.
\<close>

definition chain_matches ::
  "('key, 'stdin, 'vk, 'pt, 'sig) enclave_ext \<Rightarrow> chain_ext \<Rightarrow> ('sig \<Rightarrow> bytes) \<Rightarrow> ('sig \<Rightarrow> bytes) \<Rightarrow>
   ('key \<Rightarrow> address) \<Rightarrow> bool" where
  "chain_matches ext x sig_r sig_s key_address \<longleftrightarrow>
     keccak_ok x \<and> keccak256 ext = sol_keccak256 x \<and>
     (\<forall>key digest sig rid. length digest = 32 \<and>
        sign_digest_recoverable ext key digest = Some (sig, rid) \<longrightarrow>
        length (sig_r sig) = 32 \<and> length (sig_s sig) = 32 \<and>
        (unat rid \<le> 1 \<longrightarrow>
           sol_ecrecover x digest (rid + 27) (sig_r sig) (sig_s sig) = key_address key))"

text \<open>A bucket lists what was put into it, and a key is parsed back to the address it shows.\<close>

definition bucket_lists :: "'s attestation_ext \<Rightarrow> bool" where
  "bucket_lists aext \<longleftrightarrow>
     (\<forall>st b k v st' ks. s3_put aext st b k v = (Inr (), st') \<and> s3_list aext st' b = Inr (Some ks) \<longrightarrow>
        Some k \<in> set ks) \<and>
     (\<forall>a. parse_address aext (show_address aext a) = Some a)"

text \<open>A response of the host comes from a signature of the enclave.\<close>

lemma execution_result_Ok:
  assumes "execution_result oc (join_execution ext (execute ext srv stdin program limit)) = Ok tr"
  shows "\<exists>rid. execute ext srv stdin program limit =
      Inr (SignedPublicValues (tr_vkey tr) (tr_public_values tr) (tr_signature tr) rid) \<and>
    tr_recovery_id tr = rid + 27"
proof -
  let ?x = "execute ext srv stdin program limit"
  obtain r where r: "?x = Inr r" using assms by (cases ?x) (simp_all add: join_execution_def)
  with execute_response [OF r] assms show ?thesis
    by (auto simp: join_execution_def and_then_eq_Ok dest!: ethereum_recovery_id_bounds [THEN conjunct2, THEN conjunct1, rule_format])
qed

lemma execute_signature:
  assumes "execute ext srv stdin program limit = Inr (SignedPublicValues vkey pv sig rid)"
  shows "sign_digest_recoverable ext (signing_key srv)
    (keccak256 ext (keccak256 ext (to_le_bytes (sp1_tee_version ext)) @ vkey @ keccak256 ext pv)) =
    Some (sig, rid)"
  using assms
  by (auto simp: execute_def execute_guarded_def cycle_limit_error_def to_sign_def Let_def
      split: if_splits sum.splits outcome.splits option.splits)

text \<open>A question is asked on a connection of its own, which is then closed.\<close>

lemma asked_once:
  assumes "bincode_ok (h_requests h)" and "bincode_ok (h_responses h)"
    and "h_net h = enclave_network ext debug (h_requests h) (h_responses h) srv cid"
    and "encodable (h_requests h) CloseSession" and "encodable (h_requests h) m"
    and "m \<noteq> CloseSession" and "replies_of ext debug srv m = [r]" and "encodable (h_responses h) r"
    and "ask_enclave h cid m k = (res, Some s)"
  shows "written s = wires (h_requests h) [m, CloseSession]"
  using ask_enclave_talking [OF assms(1-3,5,6,4,7,8), of k] assms(9) by auto

text \<open>What \<open>/address\<close> returns is the address of the enclave's key.\<close>

lemma reported_key:
  assumes "in_front_of h ext debug srv (srv_cid hs)" and "encodable (h_requests h) GetPublicKey"
    and "encodable (h_responses h) (PublicKey (get_public_key ext srv))"
    and "fst (get_address h hs) = Ok signer"
  shows "ethereum_address_from_encoded_point (h_points h) (h_raw_address h) (get_public_key ext srv) =
    Inr (Some signer)"
proof -
  have "address_result (h_points h) (h_raw_address h) (PublicKey (get_public_key ext srv)) = Ok signer"
    using get_address_run [of h ext debug srv hs] assms by (simp add: in_front_of_def)
  then show ?thesis by (simp only: address_result_Ok)
qed

text \<open>
  The host \<open>h\<close> runs in front of a working enclave: the codecs carry the messages of an attestation, the
  document the security module issues is valid with \<open>p0\<close> in PCR0, and the two encodings of the
  enclave's key agree.
\<close>

definition attesting ::
  "('stdin, 'pt, 'sig, 'rsig, 'chan) host_ext \<Rightarrow> ('key, 'stdin, 'vk, 'pt, 'sig) enclave_ext \<Rightarrow> bool \<Rightarrow>
   'key enclave_server \<Rightarrow> 's attestation_ext \<Rightarrow> bytes \<Rightarrow> bool" where
  "attesting h ext debug srv aext p0 \<longleftrightarrow>
     encodable (h_requests h) AttestSigningKey \<and> encodable (h_requests h) GetPublicKey \<and>
     (\<forall>r \<in> set (answers ext debug srv [AttestSigningKey, GetPublicKey]). encodable (h_responses h) r) \<and>
     nsm_attests ext aext p0 \<and> point_ops_ok (h_points h) \<and> addr_of_raw aext = h_raw_address h \<and>
     as_bytes (h_points h) (get_public_key ext srv) = point_bytes ext (get_public_key ext srv)"

text \<open>The arguments the attestation task saves with.\<close>

abbreviation task_args :: "bool \<Rightarrow> u32 \<Rightarrow> save_attestation_args" where
  "task_args production cid \<equiv>
     (default_save_attestation_args production)\<lparr>sa_cid := cid, sa_port := ENCLAVE_PORT\<rparr>"

text \<open>What the task has saved is the document of the address that \<open>/address\<close> reports.\<close>

lemma reported_saved:
  assumes "in_front_of h ext debug srv (srv_cid hs)" and "attesting h ext debug srv aext p0"
    and "save_attestation aext (h_points h) (h_requests h) (h_responses h) (h_net h)
      (task_args production (srv_cid hs)) store = (Ok (), store')"
    and "fst (get_address h hs) = Ok signer"
  shows "\<exists>d doc pk. s3_put aext store (S3_BUCKET production) (show_address aext signer) d = (Inr (), store') \<and>
    validate_doc aext d = Inr doc \<and> doc_pcrs doc 0 = Some p0 \<and>
    doc_user_data doc = Some (to_le_bytes (sp1_tee_version ext)) \<and> doc_public_key doc = Some pk \<and>
    length pk = 65 \<and> pk ! 0 = 0x04 \<and> addr_of_raw aext (drop 1 pk) = Inr signer"
proof -
  let ?args = "task_args production (srv_cid hs)"
  have codecs: "bincode_ok (h_requests h)" "bincode_ok (h_responses h)"
    using assms(1) by (simp_all add: in_front_of_def)
  have enc: "encodable (h_requests h) AttestSigningKey" "encodable (h_requests h) GetPublicKey"
      "\<forall>r \<in> set (answers ext debug srv [AttestSigningKey, GetPublicKey]). encodable (h_responses h) r"
    and attested: "nsm_attests ext aext p0" "point_ops_ok (h_points h)"
      "as_bytes (h_points h) (get_public_key ext srv) = point_bytes ext (get_public_key ext srv)"
    and raw: "addr_of_raw aext = h_raw_address h"
    using assms(2) unfolding attesting_def by blast+
  have args: "sa_port ?args = ENCLAVE_PORT" "sa_bucket ?args = S3_BUCKET production"
    by (simp_all add: default_save_attestation_args_def)
  have "save_attestation aext (h_points h) (h_requests h) (h_responses h)
      (enclave_network ext debug (h_requests h) (h_responses h) srv (sa_cid ?args)) ?args store = (Ok (), store')"
    using assms(1,3) by (simp add: in_front_of_def)
  moreover have "ethereum_address_from_encoded_point (h_points h) (addr_of_raw aext) (get_public_key ext srv) =
      Inr (Some signer)"
    unfolding raw using enc(3) by (intro reported_key [OF assms(1) enc(2) _ assms(4)]) simp
  ultimately show ?thesis
    using saved_attestation [OF codecs enc attested _ args(1)] unfolding args(2) by blast
qed

text \<open>The concrete host, enclave and bucket satisfy what the properties below assume of them.\<close>

lemma toy_in_front: "in_front_of (toy_host True) toy_ext False toy_server (srv_cid toy_host_server)"
  using toy_requests_encodable(3) by (simp add: in_front_of_def toy_host_server_def)

lemma toy_attesting: "attesting (toy_host True) toy_ext False toy_server toy_aext [9]"
  using toy_requests_encodable(1,2) toy_answers_encodable toy_nsm_attests toy_address_ok
  by (simp add: attesting_def toy_aext_def toy_points_def toy_ext_def)

lemma toy_task_args: "task_args True (srv_cid toy_host_server) = default_save_attestation_args True"
  by (simp add: default_save_attestation_args_def toy_host_server_def)

lemma toy_saved:
  "save_attestation toy_aext (h_points (toy_host True)) (h_requests (toy_host True))
     (h_responses (toy_host True)) (h_net (toy_host True)) (task_args True (srv_cid toy_host_server)) [] =
   (Ok (), toy_bucket)"
  unfolding toy_task_args by (simp add: toy_save)

lemma toy_reported: "fst (get_address (toy_host True) toy_host_server) = Ok 7"
proof -
  have "encodable toy_response_codec (PublicKey (get_public_key toy_ext toy_server))"
    using toy_answers_encodable by simp
  then have "fst (get_address (toy_host True) toy_host_server) =
      address_result toy_points toy_raw_address (PublicKey (4 # replicate 63 0 @ [7]) :: (bytes, bytes) enclave_response)"
    using get_address_run [of "toy_host True" toy_ext False toy_server toy_host_server]
      toy_requests_encodable toy_in_front
    by (simp add: toy_public_key in_front_of_def)
  also have "\<dots> = Ok 7"
    unfolding address_result_Ok using toy_signer by (simp add: toy_aext_def)
  finally show ?thesis .
qed

lemma toy_bucket_lists: "bucket_lists toy_aext"
  by (auto simp: bucket_lists_def toy_aext_def split: if_splits)

section \<open>Properties\<close>

text \<open>
  C1. From the enclave to the chain. When a request executed through the host comes back signed,
  the signature in the response, put into the proof bytes with the recovery id of the response and the
  enclave's version, is accepted by the verifier contract for the verifying key and public values of
  the response, in every reachable state of the contract in which the enclave's key is a registered
  signer and for every inner proof the gateway accepts. What the enclave hashes and signs is what the
  contract hashes and recovers from.
\<close>

theorem signed_response_verifies_on_chain:
  assumes "in_front_of h ext debug srv cid"
    and "encodable (h_requests h) (Execute (rq_stdin rq) (rq_program rq) (rq_cycle_limit rq))"
    and "encodable (h_responses h)
      (join_execution ext (execute ext srv (rq_stdin rq) (rq_program rq) (rq_cycle_limit rq)))"
    and "execute_inner h cid rq = (Ok tr, socket)"
    and "tr_recovery_id tr = 27 \<or> tr_recovery_id tr = 28"
    and "chain_matches ext x sig_r sig_s key_address"
    and "deployed c0" and "rtranclp contract_step c0 c" and "isSigner c (key_address (signing_key srv))"
    and "sol_gateway x (tr_vkey tr) (tr_public_values tr) inner_proof = Ok ()"
  shows "verifyProof x c (tr_vkey tr) (tr_public_values tr)
    (proof_bytes x (tr_recovery_id tr) (sig_r (tr_signature tr)) (sig_s (tr_signature tr))
       (to_le_bytes (sp1_tee_version ext)) inner_proof) = Ok ()"
proof -
  let ?version = "to_le_bytes (sp1_tee_version ext)"
  let ?digest = "message_hash x ?version (tr_vkey tr) (tr_public_values tr)"
  have res: "execution_result (h_overflow_checks h)
      (join_execution ext (execute ext srv (rq_stdin rq) (rq_program rq) (rq_cycle_limit rq))) = Ok tr"
    using assms(1-4) execute_inner_run [of h ext debug srv cid rq "Ok tr" socket]
    by (simp add: in_front_of_def)
  obtain rid where ex: "execute ext srv (rq_stdin rq) (rq_program rq) (rq_cycle_limit rq) =
      Inr (SignedPublicValues (tr_vkey tr) (tr_public_values tr) (tr_signature tr) rid)"
    and rid: "tr_recovery_id tr = rid + 27"
    using execution_result_Ok [OF res] by blast
  have "rid = 0 \<or> rid = 1" using assms(5) rid by (auto simp: eq_diff_eq [symmetric])
  then have "unat rid \<le> 1" by auto
  moreover have "sign_digest_recoverable ext (signing_key srv) ?digest = Some (tr_signature tr, rid)"
    using execute_signature [OF ex] assms(6) by (simp add: message_hash_def chain_matches_def)
  moreover have "length ?digest = 32"
    using assms(6) by (simp add: message_hash_def chain_matches_def keccak_ok_def)
  ultimately have sig: "length (sig_r (tr_signature tr)) = 32" "length (sig_s (tr_signature tr)) = 32"
      "sol_ecrecover x ?digest (tr_recovery_id tr) (sig_r (tr_signature tr)) (sig_s (tr_signature tr)) =
        key_address (signing_key srv)"
    using assms(6) unfolding rid chain_matches_def by blast+
  have "\<not> isSigner c 0"
    using contract.reach_inv [OF assms(7,8)] by (simp add: verifier_inv_def)
  then have "key_address (signing_key srv) \<noteq> 0" using assms(9) by metis
  then show ?thesis
    using assms(5,6,9,10) sig verifyProof_Ok [of x c "tr_vkey tr" "tr_public_values tr" _ "()"]
    unfolding chain_matches_def
    by (auto simp: version_fits_def Let_def intro!: exI)
qed

theorem signed_response_verifies_on_chain_witness:
  "verifyProof toy_chain toy_contract (replicate 31 0 @ [2]) [5]
     (proof_bytes toy_chain 28 (replicate 31 0 @ [109]) (replicate 31 0 @ [7]) (to_le_bytes 1) []) = Ok ()"
proof -
  let ?sig_r = "tl :: bytes \<Rightarrow> bytes" and ?sig_s = "\<lambda>sig. replicate 31 0 @ [hd sig] :: bytes"
  let ?tr = "\<lparr>tr_vkey = replicate 31 0 @ [2], tr_public_values = [5],
    tr_signature = 7 # replicate 31 0 @ [109], tr_recovery_id = 28\<rparr> :: bytes tee_response"
  have front: "in_front_of (toy_host True) toy_ext False toy_server 10"
    using toy_requests_encodable(3) by (simp add: in_front_of_def)
  have rq: "rq_stdin toy_request = [5]" "rq_program toy_request = [2]" "rq_cycle_limit toy_request = 100"
    by (simp_all add: toy_request_def)
  have enc: "encodable (h_requests (toy_host True))
      (Execute (rq_stdin toy_request) (rq_program toy_request) (rq_cycle_limit toy_request))"
    "encodable (h_responses (toy_host True)) (join_execution toy_ext
      (execute toy_ext toy_server (rq_stdin toy_request) (rq_program toy_request) (rq_cycle_limit toy_request)))"
    using toy_execution_encodable by (simp_all add: rq)
  obtain res socket where run: "execute_inner (toy_host True) 10 toy_request = (res, socket)" by fastforce
  have "res = Ok ?tr"
    using execute_inner_run [OF _ _ _ enc(1) _ enc(2) run] front
    by (simp add: in_front_of_def rq toy_execution ethereum_recovery_id_def)
  with run have run: "execute_inner (toy_host True) 10 toy_request = (Ok ?tr, socket)" by simp
  have chain: "chain_matches toy_ext toy_chain ?sig_r ?sig_s ucast"
    using toy_keccak_ok by (auto simp: chain_matches_def toy_ext_def toy_chain_def toy_hash_def fun_eq_iff)
  obtain c0 where c: "deployed c0" "rtranclp contract_step c0 toy_contract"
    using toy_contract_reachable by blast
  have "isSigner toy_contract (ucast (signing_key toy_server))"
    by (simp add: toy_server_def server_new_def toy_contract_def isSigner_def map_isSigner_def)
  from signed_response_verifies_on_chain [OF front enc run _ chain c this, of "[]"]
  show ?thesis by (simp add: toy_chain_def toy_ext_def)
qed



text \<open>
  The address the host reports is the address it has attested. Once the host's task has saved
  the attestation of the enclave it is connected to, the address \<open>/address\<close> returns passes the
  verification of a signer, at the enclave's version and for the measurement of its image.
\<close>

lemma reported_address_is_attested:
  assumes "in_front_of h ext debug srv (srv_cid hs)" and "attesting h ext debug srv aext p0"
    and "save_attestation aext (h_points h) (h_requests h) (h_responses h) (h_net h)
      (task_args production (srv_cid hs)) store = (Ok (), store')"
    and "fst (get_address h hs) = Ok signer"
    and "s3_ok aext" and "hex_encode aext p0 = erase_0x pcr0_arg"
  shows "verify_attestation_for_signer aext production store' signer (sp1_tee_version ext) pcr0_arg = Ok ()"
  using reported_saved [OF assms(1-4)] saved_attestation_verifies [OF assms(5) _ _ _ assms(6)] by blast

lemma reported_address_is_attested_witness:
  "fst (get_address (toy_host True) toy_host_server) = Ok 7 \<and>
   verify_attestation_for_signer toy_aext True toy_bucket 7 1 ''0x9'' = Ok ()"
proof -
  have hex: "hex_encode toy_aext [9] = erase_0x ''0x9''"
    by (simp add: toy_aext_def char_of_def bit_0)
  have "sp1_tee_version toy_ext = 1" by (simp add: toy_ext_def)
  with reported_address_is_attested [OF toy_in_front toy_attesting toy_saved toy_reported toy_s3_ok hex]
    toy_reported
  show ?thesis by simp
qed



end
